theory Spec2Isabelle
  imports Complex_Main
begin

section \<open>Shared data\<close>

text \<open>
  Opaque structured payloads (\<^verbatim>\<open>Dict[str, Any]\<close>, the values handed to the storage
  collaborator) are JSON-like values.
\<close>

datatype json =
    JNull
  | JBool bool
  | JInt int
  | JStr string
  | JArr "json list"
  | JObj "(string \<times> json) list"

text \<open>Python truthiness of such a value, as \<^verbatim>\<open>if existing:\<close> tests it.\<close>

fun truthy :: "json \<Rightarrow> bool" where
  "truthy JNull = False"
| "truthy (JBool b) = b"
| "truthy (JInt i) = (i \<noteq> 0)"
| "truthy (JStr s) = (s \<noteq> [])"
| "truthy (JArr xs) = (xs \<noteq> [])"
| "truthy (JObj kvs) = (kvs \<noteq> [])"

text \<open>
  \<^verbatim>\<open>stripe.Webhook.construct_event(payload, signature, secret)\<close> is the provider's
  library: it either builds the event or raises \<^verbatim>\<open>ValueError\<close> (malformed payload) or
  \<^verbatim>\<open>SignatureVerificationError\<close>. The library is a parameter of the model.
\<close>

datatype 'e construct_result =
    ValueError
  | SignatureVerificationError
  | Constructed 'e

section \<open>webhooks.py: WebhookProcessor\<close>

text \<open>The dataclass \<^verbatim>\<open>WebhookEvent\<close>.\<close>

record webhook_event =
  id' :: string
  type' :: string
  data :: json
  created :: int
  processed_at :: "real option"
  attempts :: int
  last_error :: "string option"

text \<open>
  What one call of a handler does: it returns, or raises an \<^verbatim>\<open>Exception\<close> whose
  \<^verbatim>\<open>str(e)\<close> is the message.
\<close>

datatype outcome = Returned | Raised string

text \<open>
  A registered handler: its \<^verbatim>\<open>__name__\<close> and its behaviour. A handler is called with the
  event (and \<^verbatim>\<open>event.data\<close>, a field of it) and acts on the world outside the processor,
  of type \<open>'w\<close>; a raising handler may have changed the world before it raised. Handlers
  read the event and do not assign to its fields.
\<close>

datatype 'w handler =
  Handler (hname: string) (call: "webhook_event \<Rightarrow> 'w \<Rightarrow> outcome \<times> 'w")

text \<open>
  What the run did, in order: handler calls (the handler's name, the event id, the value
  of \<^verbatim>\<open>event.attempts\<close> at the call, and how the call ended) and sleeps.
\<close>

datatype action = Invoke string string int outcome | Sleep int

text \<open>
  The processor object, as one request at a time sees it (a request is processed from
  its start to its end; requests are not interleaved here).
  \<^verbatim>\<open>event_log\<close> and \<^verbatim>\<open>failed_events\<close> are Python lists of
  references to \<^verbatim>\<open>WebhookEvent\<close> objects, and one object can be in both lists (and twice
  in one); the objects live in \<open>objs\<close>, a reference being an index into it. \<open>world\<close> is the
  state the handlers act on, \<open>trace\<close> records the handler calls and sleeps made so far.
\<close>

record 'w processor =
  webhook_secret :: string
  max_retries :: int
  retry_delay :: int
  handlers :: "string \<rightharpoonup> 'w handler list"
  event_log :: "nat list"
  failed_events :: "nat list"
  objs :: "webhook_event list"
  world :: 'w
  trace :: "action list"

text \<open>\<^verbatim>\<open>WebhookProcessor.__init__\<close>, with the defaults written out in \<open>new_processor\<close>.\<close>

definition init :: "string \<Rightarrow> int \<Rightarrow> int \<Rightarrow> 'w \<Rightarrow> 'w processor" where
  "init secret retries delay w =
     \<lparr> webhook_secret = secret, max_retries = retries, retry_delay = delay,
       handlers = Map.empty, event_log = [], failed_events = [],
       objs = [], world = w, trace = [] \<rparr>"

definition new_processor :: "string \<Rightarrow> 'w \<Rightarrow> 'w processor" where
  "new_processor secret w = init secret 3 60 w"

text \<open>\<^verbatim>\<open>self.handlers.get(event.type, [])\<close>\<close>

definition get_handlers :: "'w processor \<Rightarrow> string \<Rightarrow> 'w handler list" where
  "get_handlers s t = (case handlers s t of None \<Rightarrow> [] | Some hs \<Rightarrow> hs)"

text \<open>
  \<^verbatim>\<open>WebhookProcessor.on\<close>: the decorator appends the function to the list of the
  event type (the string \<^verbatim>\<open>event_type.value\<close>).
\<close>

definition on :: "string \<Rightarrow> 'w handler \<Rightarrow> 'w processor \<Rightarrow> 'w processor" where
  "on t h s = s\<lparr>handlers := (handlers s)(t \<mapsto> get_handlers s t @ [h])\<rparr>"

text \<open>
  Reading and assigning the fields of the event object behind a reference. The references
  the code holds are to objects that exist (\<open>well_formed\<close> below states it of the two
  lists), so these reads are in range.
\<close>

definition deref :: "'w processor \<Rightarrow> nat \<Rightarrow> webhook_event" where
  "deref s r = objs s ! r"

definition assign :: "nat \<Rightarrow> (webhook_event \<Rightarrow> webhook_event) \<Rightarrow> 'w processor \<Rightarrow> 'w processor" where
  "assign r f s = s\<lparr>objs := (objs s)[r := f (objs s ! r)]\<rparr>"

definition log_action :: "action \<Rightarrow> 'w processor \<Rightarrow> 'w processor" where
  "log_action a s = s\<lparr>trace := trace s @ [a]\<rparr>"

text \<open>\<^verbatim>\<open>_async_sleep\<close>: the task waits; the model records the delay.\<close>

definition async_sleep :: "int \<Rightarrow> 'w processor \<Rightarrow> 'w processor" where
  "async_sleep seconds s = log_action (Sleep seconds) s"

text \<open>
  The inner loop \<^verbatim>\<open>for attempt in range(self.max_retries)\<close> of \<^verbatim>\<open>_process_event\<close>,
  over the attempts still to make. The flag returned is True when the loop ran to its
  end without \<^verbatim>\<open>break\<close>, which is when Python runs the \<^verbatim>\<open>else\<close> clause of the loop.
\<close>

fun retry_loop ::
  "'w handler \<Rightarrow> nat \<Rightarrow> int list \<Rightarrow> 'w processor \<Rightarrow> string list
     \<Rightarrow> bool \<times> 'w processor \<times> string list" where
  "retry_loop h r [] s errors = (True, s, errors)"
| "retry_loop h r (attempt # rest) s errors =
     (let s1 = assign r (\<lambda>e. e\<lparr>attempts := attempt + 1\<rparr>) s
      in case call h (deref s1 r) (world s1) of (out, w') \<Rightarrow>
        (let s2 = log_action (Invoke (hname h) (id' (deref s1 r)) (attempt + 1) out)
                    (s1\<lparr>world := w'\<rparr>)
         in case out of
              Returned \<Rightarrow> (False, s2, errors)
            | Raised e \<Rightarrow>
                (let s3 = assign r (\<lambda>ev. ev\<lparr>last_error := Some e\<rparr>) s2;
                     errors' = errors @ [hname h @ '': '' @ e];
                     s4 = (if attempt < max_retries s3 - 1
                           then async_sleep (retry_delay s3 * (attempt + 1)) s3 else s3)
                 in retry_loop h r rest s4 errors')))"

text \<open>\<^verbatim>\<open>range(n)\<close>: empty when \<open>n \<le> 0\<close>.\<close>

definition py_range :: "int \<Rightarrow> int list" where
  "py_range n = map int [0..<nat n]"

text \<open>
  The outer loop \<^verbatim>\<open>for handler in handlers\<close>, with the \<^verbatim>\<open>else\<close> clause of the inner
  loop: \<^verbatim>\<open>self.failed_events.append(event)\<close>.
\<close>

fun handler_loop ::
  "'w handler list \<Rightarrow> nat \<Rightarrow> 'w processor \<Rightarrow> string list \<Rightarrow> 'w processor \<times> string list" where
  "handler_loop [] r s errors = (s, errors)"
| "handler_loop (h # hs) r s errors =
     (case retry_loop h r (py_range (max_retries s)) s errors of
        (exhausted, s', errors') \<Rightarrow>
          handler_loop hs r
            (if exhausted then s'\<lparr>failed_events := failed_events s' @ [r]\<rparr> else s')
            errors')"

text \<open>
  The dictionaries the processor returns: \<^verbatim>\<open>{"status": "duplicate", "event_id": ...}\<close>,
  \<^verbatim>\<open>{"status": "ignored", "type": ...}\<close>,
  \<^verbatim>\<open>{"status": "partial_failure", "event_id": ..., "errors": ...}\<close>,
  \<^verbatim>\<open>{"status": "processed", "event_id": ...}\<close> and \<^verbatim>\<open>{"status": "not_found"}\<close>.
\<close>

datatype response =
    Duplicate string
  | Ignored string
  | PartialFailure string "string list"
  | Processed string
  | NotFound

fun status :: "response \<Rightarrow> string" where
  "status (Duplicate _) = ''duplicate''"
| "status (Ignored _) = ''ignored''"
| "status (PartialFailure _ _) = ''partial_failure''"
| "status (Processed _) = ''processed''"
| "status NotFound = ''not_found''"

text \<open>
  \<^verbatim>\<open>_process_event\<close>, on the event object behind \<open>r\<close>; \<open>now\<close> is what
  \<^verbatim>\<open>time.time()\<close> returns.
\<close>

definition process_event :: "nat \<Rightarrow> real \<Rightarrow> 'w processor \<Rightarrow> response \<times> 'w processor" where
  "process_event r now s =
     (let hs = get_handlers s (type' (deref s r))
      in if hs = [] then
           (Ignored (type' (deref s r)), s\<lparr>event_log := event_log s @ [r]\<rparr>)
         else
           (case handler_loop hs r s [] of
              (s1, errors) \<Rightarrow>
                (let s2 = assign r (\<lambda>e. e\<lparr>processed_at := Some now\<rparr>) s1;
                     s3 = s2\<lparr>event_log := event_log s2 @ [r]\<rparr>
                 in if errors \<noteq> [] then (PartialFailure (id' (deref s3 r)) errors, s3)
                    else (Processed (id' (deref s3 r)), s3))))"

text \<open>
  The request is its body and its \<^verbatim>\<open>Stripe-Signature\<close> header. \<^verbatim>\<open>json.loads\<close> followed
  by the subscripts \<^verbatim>\<open>event_data["id"]\<close>, \<^verbatim>\<open>["type"]\<close>, \<^verbatim>\<open>["data"]["object"]\<close> and
  \<^verbatim>\<open>["created"]\<close> is a parameter too: the body does not parse, a subscript raises (the
  key it names is missing), or the four values are there. The two library functions make
  the record \<open>lib\<close>; the router uses \<open>construct_event\<close> only.
\<close>

datatype parsed =
    JSONDecodeError
  | KeyError string
  | Envelope string string json int

record 'e lib =
  construct_event :: "string \<Rightarrow> string \<Rightarrow> string \<Rightarrow> 'e construct_result"
  loads :: "string \<Rightarrow> parsed"

datatype error = HTTPException int string | PyKeyError string

text \<open>\<^verbatim>\<open>verify_signature\<close>: both exceptions of the library become False.\<close>

definition verify_signature :: "'e lib \<Rightarrow> 'w processor \<Rightarrow> string \<Rightarrow> string \<Rightarrow> bool" where
  "verify_signature l s payload signature =
     (case construct_event l payload signature (webhook_secret s) of
        Constructed _ \<Rightarrow> True
      | ValueError \<Rightarrow> False
      | SignatureVerificationError \<Rightarrow> False)"

definition new_event :: "string \<Rightarrow> string \<Rightarrow> json \<Rightarrow> int \<Rightarrow> webhook_event" where
  "new_event i t d c =
     \<lparr> id' = i, type' = t, data = d, created = c,
       processed_at = None, attempts = 0, last_error = None \<rparr>"

definition log_ids :: "'w processor \<Rightarrow> string list" where
  "log_ids s = map (\<lambda>r. id' (deref s r)) (event_log s)"

definition failed_ids :: "'w processor \<Rightarrow> string list" where
  "failed_ids s = map (\<lambda>r. id' (deref s r)) (failed_events s)"

text \<open>
  \<^verbatim>\<open>process\<close>. The event object is created before the duplicate check; a duplicate's
  object is dropped at once, so the model allocates it only when it is processed.
\<close>

definition process ::
  "'e lib \<Rightarrow> string \<Rightarrow> string \<Rightarrow> real \<Rightarrow> 'w processor \<Rightarrow> (error + response) \<times> 'w processor" where
  "process l payload signature now s =
     (if \<not> verify_signature l s payload signature then
        (Inl (HTTPException 400 ''Invalid signature''), s)
      else case loads l payload of
        JSONDecodeError \<Rightarrow> (Inl (HTTPException 400 ''Invalid JSON''), s)
      | KeyError k \<Rightarrow> (Inl (PyKeyError k), s)
      | Envelope i t d c \<Rightarrow>
          if i \<in> set (log_ids s) then (Inr (Duplicate i), s)
          else
            (let r = length (objs s);
                 s1 = s\<lparr>objs := objs s @ [new_event i t d c]\<rparr>
             in case process_event r now s1 of (res, s2) \<Rightarrow> (Inr res, s2)))"

text \<open>
  \<^verbatim>\<open>retry_failed\<close>: the first entry of \<^verbatim>\<open>failed_events\<close> with the id is popped; the
  object (still referenced by the event log) is reset and processed again.
\<close>

fun find_failed :: "'w processor \<Rightarrow> string \<Rightarrow> nat list \<Rightarrow> nat \<Rightarrow> nat option" where
  "find_failed s event_id [] i = None"
| "find_failed s event_id (e # es) i =
     (if id' (deref s e) = event_id then Some i else find_failed s event_id es (Suc i))"

definition pop :: "nat \<Rightarrow> 'a list \<Rightarrow> 'a list" where
  "pop i xs = take i xs @ drop (Suc i) xs"

definition retry_failed :: "string \<Rightarrow> real \<Rightarrow> 'w processor \<Rightarrow> response \<times> 'w processor" where
  "retry_failed event_id now s =
     (case find_failed s event_id (failed_events s) 0 of
        None \<Rightarrow> (NotFound, s)
      | Some i \<Rightarrow>
          (let r = failed_events s ! i;
               s1 = s\<lparr>failed_events := pop i (failed_events s)\<rparr>;
               s2 = assign r (\<lambda>e. e\<lparr>attempts := 0\<rparr>) s1;
               s3 = assign r (\<lambda>e. e\<lparr>last_error := None\<rparr>) s2
           in process_event r now s3))"

section \<open>events.py: EventRouter and DisputeEventHandler\<close>

text \<open>
  Modelled from the spec: the Storage collaborator (\<^verbatim>\<open>get(key) -> value|null\<close>,
  \<^verbatim>\<open>put(key, value) -> void\<close>) and the email sender behind the Notification Service
  (\<^verbatim>\<open>send(to, subject, template, data) -> void\<close>) are objects handed to the
  constructors; events.py binds them to no implementation (\<^verbatim>\<open>SimpleStorage\<close> in
  api_keys.py is an in-memory storage with this interface whose \<^verbatim>\<open>put\<close> always succeeds,
  the case \<open>unwritable = (\<lambda>k. False)\<close> here). Storage is a key-value map
  whose \<^verbatim>\<open>get\<close> returns what the last accepted \<^verbatim>\<open>put\<close> stored; a \<^verbatim>\<open>put\<close> to a key in
  \<open>unwritable\<close> raises and stores nothing. The sender appends to \<open>outbox\<close>, or raises
  when \<open>mail_down\<close>. \<open>effects\<close> lists, in order, the accepted writes and the calls of the
  sender.
\<close>

record email =
  to :: string
  subject :: string
  template :: string
  body :: json

datatype effect = Put string | Send string

record env =
  kv :: "string \<rightharpoonup> json"
  unwritable :: "string \<Rightarrow> bool"
  outbox :: "email list"
  mail_down :: bool
  effects :: "effect list"

definition storage_get :: "string \<Rightarrow> env \<Rightarrow> json option" where
  "storage_get k e = kv e k"

definition storage_put :: "string \<Rightarrow> json \<Rightarrow> env \<Rightarrow> outcome \<times> env" where
  "storage_put k v e =
     (if unwritable e k then (Raised (''storage: cannot write '' @ k), e)
      else (Returned, e\<lparr>kv := (kv e)(k \<mapsto> v), effects := effects e @ [Put k]\<rparr>))"

definition email_send :: "email \<Rightarrow> env \<Rightarrow> outcome \<times> env" where
  "email_send m e =
     (let e1 = e\<lparr>effects := effects e @ [Send (to m)]\<rparr>
      in if mail_down e then (Raised ''email: cannot send'', e1)
         else (Returned, e1\<lparr>outbox := outbox e1 @ [m]\<rparr>))"

text \<open>\<^verbatim>\<open>NotificationService.send_admin_alert\<close>\<close>

definition send_admin_alert :: "string \<Rightarrow> string \<Rightarrow> env \<Rightarrow> outcome \<times> env" where
  "send_admin_alert subj message e =
     email_send \<lparr> to = ''admin@example.com'', subject = ''[ALERT] '' @ subj,
                  template = ''admin_alert'', body = JObj [(''message'', JStr message)] \<rparr> e"

text \<open>
  The provider's event: \<^verbatim>\<open>event.id\<close>, \<^verbatim>\<open>event.type\<close> and \<^verbatim>\<open>event.data.object\<close>, and the
  dispute object with the attributes the handler reads.
\<close>

record 'o stripe_event =
  ev_id :: string
  ev_type :: string
  ev_object :: 'o

record evidence_details =
  due_by :: int

record dispute =
  dispute_id :: string
  charge :: string
  amount :: int
  reason :: string
  dispute_status :: string
  evidence :: "evidence_details option"

text \<open>
  How \<^verbatim>\<open>_handle_created\<close> renders numbers in the alert (\<^verbatim>\<open>{dispute.amount / 100:.2f}\<close>
  and \<^verbatim>\<open>{due_by}\<close>) is a parameter; \<open>utcnow\<close> is \<^verbatim>\<open>datetime.utcnow().isoformat()\<close>.
\<close>

record dispute_handler =
  notifications :: bool
  fmt_dollars :: "int \<Rightarrow> string"
  fmt_int :: "int \<Rightarrow> string"
  utcnow :: string

text \<open>
  \<^verbatim>\<open>DisputeEventHandler._handle_created\<close>; \<open>dispute_record\<close> is the dictionary it
  stores, Inl the exception raised.
\<close>

definition dispute_record :: "dispute_handler \<Rightarrow> dispute \<Rightarrow> json" where
  "dispute_record h d =
     JObj [(''charge_id'', JStr (charge d)),
           (''amount'', JInt (amount d)),
           (''reason'', JStr (reason d)),
           (''status'', JStr (dispute_status d)),
           (''created_at'', JStr (utcnow h)),
           (''evidence_due_by'',
              (case evidence d of None \<Rightarrow> JNull | Some ed \<Rightarrow> JInt (due_by ed)))]"

definition handle_created :: "dispute_handler \<Rightarrow> dispute \<Rightarrow> env \<Rightarrow> (string + json) \<times> env" where
  "handle_created h d e =
     (case storage_put (''dispute:'' @ dispute_id d) (dispute_record h d) e of
        (Raised x, e1) \<Rightarrow> (Inl x, e1)
      | (Returned, e1) \<Rightarrow>
          (let done = Inr (JObj [(''handled'', JBool True), (''action'', JStr ''dispute_alert_sent'')])
           in if notifications h then
                (case send_admin_alert
                        (''URGENT: Dispute opened for $'' @ fmt_dollars h (amount d))
                        (''Dispute reason: '' @ reason d @ ''. Evidence due by: '' @
                           (case evidence d of None \<Rightarrow> ''N/A'' | Some ed \<Rightarrow> fmt_int h (due_by ed)))
                        e1 of
                   (Raised x, e2) \<Rightarrow> (Inl x, e2)
                 | (Returned, e2) \<Rightarrow> (done, e2))
              else (done, e1)))"

text \<open>\<^verbatim>\<open>DisputeEventHandler._handle_closed\<close>\<close>

definition handle_closed :: "dispute_handler \<Rightarrow> dispute \<Rightarrow> env \<Rightarrow> (string + json) \<times> env" where
  "handle_closed h d e =
     (case storage_put (''dispute:'' @ dispute_id d)
             (JObj [(''status'', JStr (dispute_status d)), (''closed_at'', JStr (utcnow h))]) e of
        (Raised x, e1) \<Rightarrow> (Inl x, e1)
      | (Returned, e1) \<Rightarrow>
          (Inr (JObj [(''handled'', JBool True), (''status'', JStr (dispute_status d))]), e1))"

text \<open>\<^verbatim>\<open>DisputeEventHandler.handle\<close>\<close>

definition dispute_handle ::
  "dispute_handler \<Rightarrow> dispute stripe_event \<Rightarrow> env \<Rightarrow> (string + json) \<times> env" where
  "dispute_handle h event e =
     (if ev_type event = ''charge.dispute.created'' then handle_created h (ev_object event) e
      else if ev_type event = ''charge.dispute.closed'' then handle_closed h (ev_object event) e
      else (Inr (JObj [(''handled'', JBool False)]), e))"

text \<open>
  An \<^verbatim>\<open>EventHandler\<close>: the class it is an instance of, its \<^verbatim>\<open>event_types\<close> (the strings
  \<^verbatim>\<open>event_type.value\<close>) and its \<^verbatim>\<open>handle\<close>, which returns a dictionary or raises.
\<close>

record 'o event_handler =
  class_name :: string
  event_types :: "string list"
  handle :: "'o stripe_event \<Rightarrow> env \<Rightarrow> (string + json) \<times> env"

definition dispute_event_handler :: "dispute_handler \<Rightarrow> dispute event_handler" where
  "dispute_event_handler h =
     \<lparr> class_name = ''DisputeEventHandler'',
       event_types = [''charge.dispute.created'', ''charge.dispute.closed''],
       handle = dispute_handle h \<rparr>"

text \<open>The router object; its storage is the one in the environment.\<close>

record 'o event_router =
  router_secret :: string
  router_handlers :: "string \<rightharpoonup> 'o event_handler"

definition new_router :: "string \<Rightarrow> 'o event_router" where
  "new_router secret = \<lparr> router_secret = secret, router_handlers = Map.empty \<rparr>"

text \<open>\<^verbatim>\<open>EventRouter.register_handler\<close>: one handler per event type, assigned.\<close>

definition register_handler :: "'o event_handler \<Rightarrow> 'o event_router \<Rightarrow> 'o event_router" where
  "register_handler h rt =
     rt\<lparr>router_handlers := fold (\<lambda>t m. m(t \<mapsto> h)) (event_types h) (router_handlers rt)\<rparr>"

text \<open>
  The dictionaries the router returns: \<^verbatim>\<open>{"error": ..., "status": 400}\<close>,
  \<^verbatim>\<open>{"status": "already_processed", "event_id": ...}\<close>,
  \<^verbatim>\<open>{"status": "unhandled", "event_type": ...}\<close> and
  \<^verbatim>\<open>{"status": "processed", "event_id": ..., "result": ...}\<close>.
\<close>

datatype router_response =
    ErrorResponse string int
  | AlreadyProcessed string
  | Unhandled string
  | RouterProcessed string json


text \<open>
  The \<^verbatim>\<open>except Exception\<close> branch of \<^verbatim>\<open>process_webhook\<close>: the failure is written under
  \<^verbatim>\<open>failed:{id}\<close> and the exception raised again; when that write raises, its exception
  is the one that leaves.
\<close>

definition record_failure ::
  "'o stripe_event \<Rightarrow> int \<Rightarrow> string \<Rightarrow> env \<Rightarrow> (string + router_response) \<times> env" where
  "record_failure event now x e =
     (case storage_put (''failed:'' @ ev_id event)
             (JObj [(''event_id'', JStr (ev_id event)),
                    (''event_type'', JStr (ev_type event)),
                    (''error'', JStr x),
                    (''failed_at'', JInt now)]) e of
        (Returned, e1) \<Rightarrow> (Inl x, e1)
      | (Raised y, e1) \<Rightarrow> (Inl y, e1))"

text \<open>
  \<^verbatim>\<open>EventRouter.process_webhook\<close>; \<open>now\<close> is \<^verbatim>\<open>int(time.time())\<close>. Inl is an exception
  that leaves the function. The third component lists the handlers this call invoked.
\<close>

definition process_webhook ::
  "('o stripe_event) lib \<Rightarrow> 'o event_router \<Rightarrow> string \<Rightarrow> string \<Rightarrow> int \<Rightarrow> env
     \<Rightarrow> (string + router_response) \<times> env \<times> string list" where
  "process_webhook l rt payload signature now e =
     (case construct_event l payload signature (router_secret rt) of
        ValueError \<Rightarrow> (Inr (ErrorResponse ''Invalid payload'' 400), e, [])
      | SignatureVerificationError \<Rightarrow> (Inr (ErrorResponse ''Invalid signature'' 401), e, [])
      | Constructed event \<Rightarrow>
          (let event_key = ''event:'' @ ev_id event
           in if (case storage_get event_key e of None \<Rightarrow> False | Some v \<Rightarrow> truthy v) then
                (Inr (AlreadyProcessed (ev_id event)), e, [])
              else
                (case router_handlers rt (ev_type event) of
                   None \<Rightarrow> (Inr (Unhandled (ev_type event)), e, [])
                 | Some handler \<Rightarrow>
                     (case handle handler event e of
                        (Inl x, e1) \<Rightarrow>
                          (case record_failure event now x e1 of
                             (res, e2) \<Rightarrow> (res, e2, [class_name handler]))
                      | (Inr result, e1) \<Rightarrow>
                          (case storage_put event_key
                                  (JObj [(''event_id'', JStr (ev_id event)),
                                         (''event_type'', JStr (ev_type event)),
                                         (''processed_at'', JInt now),
                                         (''success'', JBool True),
                                         (''data'', result)]) e1 of
                             (Returned, e2) \<Rightarrow>
                               (Inr (RouterProcessed (ev_id event) result), e2, [class_name handler])
                           | (Raised x, e2) \<Rightarrow>
                               (case record_failure event now x e2 of
                                  (res, e3) \<Rightarrow> (res, e3, [class_name handler])))))))"

section \<open>What a run did\<close>

text \<open>
  Readings of the trace: the handler calls in it, the error lines
  \<^verbatim>\<open>f"{handler.__name__}: {e}"\<close> of the calls that raised, the number of calls that raised
  at attempt number \<open>m\<close>, and the handlers called at attempt number 1.
\<close>

fun is_invoke :: "action \<Rightarrow> bool" where
  "is_invoke (Invoke _ _ _ _) = True"
| "is_invoke (Sleep _) = False"

definition invocations :: "action list \<Rightarrow> action list" where
  "invocations tr = filter is_invoke tr"

fun error_line :: "action \<Rightarrow> string list" where
  "error_line (Invoke hn _ _ (Raised e)) = [hn @ '': '' @ e]"
| "error_line _ = []"

definition error_lines :: "action list \<Rightarrow> string list" where
  "error_lines tr = concat (map error_line tr)"

fun exhausting :: "int \<Rightarrow> action \<Rightarrow> bool" where
  "exhausting m (Invoke _ _ n (Raised _)) = (n = m)"
| "exhausting m _ = False"

definition exhaustions :: "int \<Rightarrow> action list \<Rightarrow> nat" where
  "exhaustions m tr = length (filter (exhausting m) tr)"

fun first_call :: "action \<Rightarrow> string list" where
  "first_call (Invoke hn _ n _) = (if n = 1 then [hn] else [])"
| "first_call (Sleep _) = []"

definition first_calls :: "action list \<Rightarrow> string list" where
  "first_calls tr = concat (map first_call tr)"

text \<open>
  What a handler does when it is called at the attempts of a list one after the other,
  each call seeing the event and the world the call before left (the event with
  \<^verbatim>\<open>attempts\<close> set for the call and \<^verbatim>\<open>last_error\<close> set after it, as the loop does): when
  every call raises, the messages raised and the event and the world after the last
  call; None when one of the calls returns.
\<close>

fun failures ::
  "'w handler \<Rightarrow> int list \<Rightarrow> webhook_event \<Rightarrow> 'w \<Rightarrow> (string list \<times> webhook_event \<times> 'w) option" where
  "failures h [] ev w = Some ([], ev, w)"
| "failures h (a # as) ev w =
     (case call h (ev\<lparr>attempts := a + 1\<rparr>) w of
        (Returned, w') \<Rightarrow> None
      | (Raised e, w') \<Rightarrow>
          (case failures h as (ev\<lparr>attempts := a + 1, last_error := Some e\<rparr>) w' of
             None \<Rightarrow> None
           | Some (msgs, ev', w'') \<Rightarrow> Some (e # msgs, ev', w'')))"

text \<open>
  The trace entries of calls of a handler, at the attempts of a list, that raised the
  messages of a list, and the lines these calls leave in \<^verbatim>\<open>errors\<close>.
\<close>

definition raised_calls :: "'w handler \<Rightarrow> string \<Rightarrow> int list \<Rightarrow> string list \<Rightarrow> action list" where
  "raised_calls h i as msgs = map2 (\<lambda>a e. Invoke (hname h) i (a + 1) (Raised e)) as msgs"

definition error_report :: "'w handler \<Rightarrow> string list \<Rightarrow> string list" where
  "error_report h msgs = map (\<lambda>e. hname h @ '': '' @ e) msgs"

text \<open>
  One pass of the body of the inner loop, named for the proofs: the state after an
  attempt that raised, and after one that returned.
\<close>

definition after_raise :: "'w handler \<Rightarrow> nat \<Rightarrow> int \<Rightarrow> string \<Rightarrow> 'w \<Rightarrow> 'w processor \<Rightarrow> 'w processor" where
  "after_raise h r a e w' s =
     (let s1 = assign r (\<lambda>e. e\<lparr>attempts := a + 1\<rparr>) s;
          s2 = log_action (Invoke (hname h) (id' (deref s1 r)) (a + 1) (Raised e)) (s1\<lparr>world := w'\<rparr>);
          s3 = assign r (\<lambda>ev. ev\<lparr>last_error := Some e\<rparr>) s2
      in if a < max_retries s3 - 1 then async_sleep (retry_delay s3 * (a + 1)) s3 else s3)"

definition after_return :: "'w handler \<Rightarrow> nat \<Rightarrow> int \<Rightarrow> 'w \<Rightarrow> 'w processor \<Rightarrow> 'w processor" where
  "after_return h r a w' s =
     (let s1 = assign r (\<lambda>e. e\<lparr>attempts := a + 1\<rparr>) s
      in log_action (Invoke (hname h) (id' (deref s1 r)) (a + 1) Returned) (s1\<lparr>world := w'\<rparr>))"

text \<open>
  The states the processor can be in: every reference in the two lists is to an object
  that exists, and every event in \<^verbatim>\<open>failed_events\<close> is in the event log too.
\<close>

definition well_formed :: "'w processor \<Rightarrow> bool" where
  "well_formed s \<longleftrightarrow>
     list_all (\<lambda>r. r < length (objs s)) (event_log s) \<and>
     list_all (\<lambda>r. r < length (objs s) \<and> id' (deref s r) \<in> set (log_ids s)) (failed_events s)"

section \<open>Example inputs\<close>

text \<open>
  A library that rejects the body \<open>{\<close> as malformed and accepts a signature equal to
  the secret; the body of an accepted request is the event id, the type is
  \<open>invoice.paid\<close>.
\<close>

definition demo_lib :: "unit lib" where
  "demo_lib =
     \<lparr> construct_event = (\<lambda>payload signature secret.
          if payload = ''{'' then ValueError
          else if signature \<noteq> secret then SignatureVerificationError
          else Constructed ()),
       loads = (\<lambda>payload.
          if payload = ''{'' then JSONDecodeError else Envelope payload ''invoice.paid'' JNull 0) \<rparr>"

text \<open>
  Handlers acting on a counter of calls: one that always raises, one that raises while
  \<^verbatim>\<open>event.attempts\<close> is below \<open>k\<close>, one that raises until the counter has reached \<open>n\<close>.
\<close>

definition always_failing :: "nat handler" where
  "always_failing = Handler ''on_invoice_paid'' (\<lambda>ev w. (Raised ''boom'', Suc w))"

definition flaky :: "int \<Rightarrow> nat handler" where
  "flaky k =
     Handler ''flaky'' (\<lambda>ev w. (if attempts ev < k then Raised ''busy'' else Returned, Suc w))"

definition down_until :: "string \<Rightarrow> nat \<Rightarrow> nat handler" where
  "down_until name n =
     Handler name (\<lambda>ev w. (if w < n then Raised ''down'' else Returned, Suc w))"

text \<open>A processor with the default configuration, and deliveries of the event \<open>evt_1\<close>.\<close>

definition demo_processor :: "nat processor" where
  "demo_processor = new_processor ''whsec'' 0"

definition failing_run :: "(error + response) \<times> nat processor" where
  "failing_run =
     process demo_lib ''evt_1'' ''whsec'' 5 (on ''invoice.paid'' always_failing demo_processor)"

definition flaky_run :: "(error + response) \<times> nat processor" where
  "flaky_run =
     process demo_lib ''evt_1'' ''whsec'' 5 (on ''invoice.paid'' (flaky 2) demo_processor)"

definition negative_run :: "(error + response) \<times> nat processor" where
  "negative_run =
     process demo_lib ''evt_1'' ''whsec'' 5
       (on ''invoice.paid'' always_failing (init ''whsec'' (- 1) 60 0))"


definition twice_failed_run :: "(error + response) \<times> nat processor" where
  "twice_failed_run =
     process demo_lib ''evt_1'' ''whsec'' 5
       (on ''invoice.paid'' (down_until ''sync_b'' 6)
         (on ''invoice.paid'' (down_until ''sync_a'' 6) demo_processor))"




text \<open>
  The same for the router: the event the library builds from an accepted request, an
  empty storage that accepts every write, a sender that works or is down, handlers that
  raise or return, and deliveries of \<open>evt_1\<close>.
\<close>

definition router_lib :: "(unit stripe_event) lib" where
  "router_lib =
     \<lparr> construct_event = (\<lambda>payload signature secret.
          if payload = ''{'' then ValueError
          else if signature \<noteq> secret then SignatureVerificationError
          else Constructed \<lparr> ev_id = payload, ev_type = ''invoice.paid'', ev_object = () \<rparr>),
       loads = (\<lambda>payload. JSONDecodeError) \<rparr>"

definition demo_env :: env where
  "demo_env =
     \<lparr> kv = Map.empty, unwritable = (\<lambda>k. False), outbox = [], mail_down = False,
       effects = [] \<rparr>"

definition mail_down_env :: env where
  "mail_down_env = demo_env\<lparr>mail_down := True\<rparr>"

definition raising_handler :: "unit event_handler" where
  "raising_handler =
     \<lparr> class_name = ''InvoiceEventHandler'', event_types = [''invoice.paid''],
       handle = (\<lambda>event e. (Inl ''boom'', e)) \<rparr>"


definition broken_router :: "unit event_router" where
  "broken_router = register_handler raising_handler (new_router ''whsec'')"







text \<open>A dispute, and a dispute handler with a notification service.\<close>

definition demo_dispute :: dispute where
  "demo_dispute =
     \<lparr> dispute_id = ''dp_1'', charge = ''ch_1'', amount = 5000, reason = ''fraudulent'',
       dispute_status = ''needs_response'', evidence = None \<rparr>"

definition demo_dispute_handler :: dispute_handler where
  "demo_dispute_handler =
     \<lparr> notifications = True, fmt_dollars = (\<lambda>n. ''50.00''), fmt_int = (\<lambda>n. ''0''),
       utcnow = ''2024-01-01T00:00:00'' \<rparr>"

section \<open>Lemmas about the processor\<close>

subsection \<open>Readings of the trace\<close>

lemma error_lines_simps [simp]:
  "error_lines [] = []"
  "error_lines (a # tr) = error_line a @ error_lines tr"
  "error_lines (tr @ tr') = error_lines tr @ error_lines tr'"
  by (simp_all add: error_lines_def)

lemma first_calls_append [simp]: "first_calls (xs @ ys) = first_calls xs @ first_calls ys"
  by (simp add: first_calls_def)

lemma first_calls_Nil [simp]: "first_calls [] = []"
  by (simp add: first_calls_def)

lemma first_calls_Cons [simp]: "first_calls (a # xs) = first_call a @ first_calls xs"
  by (simp add: first_calls_def)

lemma exhaustions_append [simp]: "exhaustions m (xs @ ys) = exhaustions m xs + exhaustions m ys"
  by (simp add: exhaustions_def)

lemma exhaustions_Nil [simp]: "exhaustions m [] = 0"
  by (simp add: exhaustions_def)

lemma exhaustions_Cons [simp]:
  "exhaustions m (a # xs) = (if exhausting m a then 1 else 0) + exhaustions m xs"
  by (simp add: exhaustions_def)

lemma invocations_append [simp]: "invocations (xs @ ys) = invocations xs @ invocations ys"
  by (simp add: invocations_def)

lemma invocations_Nil [simp]: "invocations [] = []"
  by (simp add: invocations_def)

lemma invocations_Cons [simp]:
  "invocations (a # xs) = (if is_invoke a then [a] else []) @ invocations xs"
  by (simp add: invocations_def)

lemma raised_calls_length: "length msgs = length as \<Longrightarrow> length (raised_calls h i as msgs) = length as"
  by (simp add: raised_calls_def)

lemma invocations_raised_calls [simp]: "invocations (raised_calls h i as msgs) = raised_calls h i as msgs"
  by (simp add: invocations_def raised_calls_def filter_id_conv set_zip)

subsection \<open>Assignments to an event object\<close>

lemma assign_fields [simp]:
  "webhook_secret (assign r f s) = webhook_secret s"
  "max_retries (assign r f s) = max_retries s"
  "retry_delay (assign r f s) = retry_delay s"
  "handlers (assign r f s) = handlers s"
  "event_log (assign r f s) = event_log s"
  "failed_events (assign r f s) = failed_events s"
  "world (assign r f s) = world s"
  "trace (assign r f s) = trace s"
  "length (objs (assign r f s)) = length (objs s)"
  by (simp_all add: assign_def)

lemma deref_assign_other [simp]: "q \<noteq> r \<Longrightarrow> deref (assign r f s) q = deref s q"
  by (simp add: assign_def deref_def)

lemma deref_assign_same [simp]:
  "r < length (objs s) \<Longrightarrow> deref (assign r f s) r = f (deref s r)"
  by (simp add: assign_def deref_def)

lemma deref_assign_beyond: "\<not> r < length (objs s) \<Longrightarrow> deref (assign r f s) q = deref s q"
  by (simp add: assign_def deref_def list_update_beyond not_less)

lemma deref_assign:
  "deref (assign r f s) q = (if q = r \<and> r < length (objs s) then f (deref s r) else deref s q)"
  by (cases "r < length (objs s)"; cases "q = r") (simp_all add: deref_assign_beyond)

lemma log_action_fields [simp]:
  "webhook_secret (log_action a s) = webhook_secret s"
  "max_retries (log_action a s) = max_retries s"
  "retry_delay (log_action a s) = retry_delay s"
  "handlers (log_action a s) = handlers s"
  "event_log (log_action a s) = event_log s"
  "failed_events (log_action a s) = failed_events s"
  "world (log_action a s) = world s"
  "objs (log_action a s) = objs s"
  "trace (log_action a s) = trace s @ [a]"
  "deref (log_action a s) q = deref s q"
  by (simp_all add: log_action_def deref_def)

lemma deref_world_update [simp]: "deref (s\<lparr>world := w\<rparr>) q = deref s q"
  by (simp add: deref_def)

lemma deref_failed_update [simp]: "deref (s\<lparr>failed_events := fs\<rparr>) q = deref s q"
  by (simp add: deref_def)

lemma deref_log_update [simp]: "deref (s\<lparr>event_log := fs\<rparr>) q = deref s q"
  by (simp add: deref_def)

lemma assign_world_update [simp]:
  "objs (assign r f (s\<lparr>world := w\<rparr>)) = objs (assign r f s)"
  by (simp add: assign_def)

lemma deref_fresh [simp]:
  "deref (s\<lparr>objs := objs s @ [e]\<rparr>) (length (objs s)) = e"
  by (simp add: deref_def)

lemma deref_alloc_old:
  "q < length (objs s) \<Longrightarrow> deref (s\<lparr>objs := objs s @ [e]\<rparr>) q = deref s q"
  by (simp add: deref_def nth_append)

lemma get_handlers_objs [simp]: "get_handlers (s\<lparr>objs := os\<rparr>) t = get_handlers s t"
  by (simp add: get_handlers_def)

lemma fresh_event_fields [simp]:
  "id' (new_event i t d c) = i" "type' (new_event i t d c) = t"
  "attempts (new_event i t d c) = 0" "last_error (new_event i t d c) = None"
  by (simp_all add: new_event_def)

lemma log_ids_assign:
  "(\<And>e. id' (f e) = id' e) \<Longrightarrow> log_ids (assign r f s) = log_ids s"
  "(\<And>e. id' (f e) = id' e) \<Longrightarrow> failed_ids (assign r f s) = failed_ids s"
  "(\<And>e. id' (f e) = id' e) \<Longrightarrow> id' (deref (assign r f s) q) = id' (deref s q)"
proof -
  assume f: "\<And>e. id' (f e) = id' e"
  then show *: "id' (deref (assign r f s) q) = id' (deref s q)" for q
    by (cases "r < length (objs s)"; cases "q = r") (simp_all add: deref_assign_beyond)
  then show "log_ids (assign r f s) = log_ids s" "failed_ids (assign r f s) = failed_ids s"
    by (simp_all add: log_ids_def failed_ids_def)
qed

subsection \<open>One attempt\<close>

lemma retry_loop_Returned:
  "call h (deref (assign r (\<lambda>e. e\<lparr>attempts := a + 1\<rparr>) s) r) (world s) = (Returned, w') \<Longrightarrow>
     retry_loop h r (a # as) s errs = (False, after_return h r a w' s, errs)"
  by (simp add: after_return_def Let_def)

lemma retry_loop_Raised:
  "call h (deref (assign r (\<lambda>e. e\<lparr>attempts := a + 1\<rparr>) s) r) (world s) = (Raised e, w') \<Longrightarrow>
     retry_loop h r (a # as) s errs =
       retry_loop h r as (after_raise h r a e w' s) (errs @ [hname h @ '': '' @ e])"
  by (simp add: after_raise_def Let_def)

lemma retry_loop_cases:
  assumes "retry_loop h r (a # as) s errs = (ex, s', errs')"
  obtains (Returned) w' where
      "call h (deref (assign r (\<lambda>e. e\<lparr>attempts := a + 1\<rparr>) s) r) (world s) = (Returned, w')"
      "ex = False" "s' = after_return h r a w' s" "errs' = errs"
  | (Raised) e w' where
      "call h (deref (assign r (\<lambda>e. e\<lparr>attempts := a + 1\<rparr>) s) r) (world s) = (Raised e, w')"
      "retry_loop h r as (after_raise h r a e w' s) (errs @ [hname h @ '': '' @ e]) = (ex, s', errs')"
proof (cases "call h (deref (assign r (\<lambda>e. e\<lparr>attempts := a + 1\<rparr>) s) r) (world s)")
  case (Pair out w')
  show thesis
  proof (cases out)
    case Returned
    with Pair have "retry_loop h r (a # as) s errs = (False, after_return h r a w' s, errs)"
      by (simp only: retry_loop_Returned)
    with assms have "ex = False" "s' = after_return h r a w' s" "errs' = errs"
      by simp_all
    with Pair Returned that(1) show thesis
      by blast
  next
    case (Raised e)
    with Pair have "retry_loop h r (a # as) s errs =
        retry_loop h r as (after_raise h r a e w' s) (errs @ [hname h @ '': '' @ e])"
      by (simp only: retry_loop_Raised)
    with assms Pair Raised that(2) show thesis
      by metis
  qed
qed

lemma after_return_fields [simp]:
  "webhook_secret (after_return h r a w' s) = webhook_secret s"
  "max_retries (after_return h r a w' s) = max_retries s"
  "retry_delay (after_return h r a w' s) = retry_delay s"
  "handlers (after_return h r a w' s) = handlers s"
  "event_log (after_return h r a w' s) = event_log s"
  "failed_events (after_return h r a w' s) = failed_events s"
  "world (after_return h r a w' s) = w'"
  "length (objs (after_return h r a w' s)) = length (objs s)"
  "trace (after_return h r a w' s) = trace s @ [Invoke (hname h) (id' (deref s r)) (a + 1) Returned]"
  by (cases "r < length (objs s)"; simp add: after_return_def Let_def deref_assign_beyond)+

lemma after_raise_fields [simp]:
  "webhook_secret (after_raise h r a e w' s) = webhook_secret s"
  "max_retries (after_raise h r a e w' s) = max_retries s"
  "retry_delay (after_raise h r a e w' s) = retry_delay s"
  "handlers (after_raise h r a e w' s) = handlers s"
  "event_log (after_raise h r a e w' s) = event_log s"
  "failed_events (after_raise h r a e w' s) = failed_events s"
  "world (after_raise h r a e w' s) = w'"
  "length (objs (after_raise h r a e w' s)) = length (objs s)"
  by (simp_all add: after_raise_def Let_def async_sleep_def)

lemma after_raise_trace [simp]:
  "trace (after_raise h r a e w' s) =
     trace s @ Invoke (hname h) (id' (deref s r)) (a + 1) (Raised e) #
       (if a < max_retries s - 1 then [Sleep (retry_delay s * (a + 1))] else [])"
  by (cases "r < length (objs s)"; simp add: after_raise_def Let_def async_sleep_def deref_assign_beyond)

lemma after_return_deref:
  "deref (after_return h r a w' s) q =
     (if q = r \<and> r < length (objs s) then (deref s r)\<lparr>attempts := a + 1\<rparr> else deref s q)"
  by (cases "r < length (objs s)"; cases "q = r"; simp add: after_return_def Let_def deref_assign_beyond)

lemma after_raise_deref:
  "deref (after_raise h r a e w' s) q =
     (if q = r \<and> r < length (objs s) then (deref s r)\<lparr>attempts := a + 1, last_error := Some e\<rparr>
      else deref s q)"
  by (cases "r < length (objs s)"; cases "q = r";
      simp add: after_raise_def Let_def async_sleep_def deref_assign_beyond)

subsection \<open>The retry loop\<close>

lemma retry_loop_frame:
  "retry_loop h r as s errs = (ex, s', errs') \<Longrightarrow>
     event_log s' = event_log s \<and> failed_events s' = failed_events s \<and>
     handlers s' = handlers s \<and> max_retries s' = max_retries s \<and>
     retry_delay s' = retry_delay s \<and> webhook_secret s' = webhook_secret s \<and>
     length (objs s') = length (objs s)"
proof (induction as arbitrary: s errs)
  case Nil
  then show ?case by simp
next
  case (Cons a as)
  from Cons.prems show ?case
  proof (cases rule: retry_loop_cases)
    case (Returned w')
    then show ?thesis by simp
  next
    case (Raised e w')
    from Cons.IH [OF Raised(2)] show ?thesis by simp
  qed
qed

lemma retry_loop_deref:
  "retry_loop h r as s errs = (ex, s', errs') \<Longrightarrow>
     id' (deref s' q) = id' (deref s q) \<and> type' (deref s' q) = type' (deref s q) \<and>
     data (deref s' q) = data (deref s q) \<and> created (deref s' q) = created (deref s q) \<and>
     processed_at (deref s' q) = processed_at (deref s q) \<and>
     (q \<noteq> r \<longrightarrow> deref s' q = deref s q)"
proof (induction as arbitrary: s errs)
  case Nil
  then show ?case by simp
next
  case (Cons a as)
  from Cons.prems show ?case
  proof (cases rule: retry_loop_cases)
    case (Returned w')
    then show ?thesis by (simp add: after_return_deref)
  next
    case (Raised e w')
    from Cons.IH [OF Raised(2)] show ?thesis by (simp add: after_raise_deref)
  qed
qed

lemma retry_loop_errors:
  "retry_loop h r as s errs = (ex, s', errs') \<Longrightarrow>
     \<exists>new. errs' = errs @ new \<and> error_lines (trace s') = error_lines (trace s) @ new"
proof (induction as arbitrary: s errs)
  case Nil
  then show ?case by simp
next
  case (Cons a as)
  from Cons.prems show ?case
  proof (cases rule: retry_loop_cases)
    case (Returned w')
    then show ?thesis by simp
  next
    case (Raised e w')
    from Cons.IH [OF Raised(2)] show ?thesis by auto
  qed
qed



lemma retry_loop_exhaustions:
  "retry_loop h r as s errs = (ex, s', errs') \<Longrightarrow> distinct as \<Longrightarrow>
   (as \<noteq> [] \<longrightarrow> last as = m - 1) \<Longrightarrow>
     exhaustions m (trace s') = exhaustions m (trace s) + (if ex \<and> as \<noteq> [] then 1 else 0)"
proof (induction as arbitrary: s errs)
  case Nil
  then show ?case by simp
next
  case (Cons a as)
  from Cons.prems(1) show ?case
  proof (cases rule: retry_loop_cases)
    case (Returned w')
    then show ?thesis by simp
  next
    case (Raised e w')
    show ?thesis
    proof (cases "as = []")
      case True
      with Raised(2) Cons.prems(3) show ?thesis by auto
    next
      case False
      from False have "last as \<in> set as"
        by (rule last_in_set)
      moreover from False Cons.prems(3) have "last as = m - 1"
        by simp
      moreover from Cons.prems(2) have "a \<notin> set as" "distinct as"
        by simp_all
      ultimately have "a \<noteq> m - 1" "distinct as" "as \<noteq> [] \<longrightarrow> last as = m - 1"
        by auto
      with Cons.IH [OF Raised(2)] False show ?thesis by simp
    qed
  qed
qed

lemma failures_Cons:
  assumes "failures h (a # as) ev w = Some (msgs, ev', w')"
  obtains e wa rest where "call h (ev\<lparr>attempts := a + 1\<rparr>) w = (Raised e, wa)"
    "failures h as (ev\<lparr>attempts := a + 1, last_error := Some e\<rparr>) wa = Some (rest, ev', w')"
    "msgs = e # rest"
  using assms by (auto split: prod.splits outcome.splits option.splits)

lemma retry_loop_failures:
  "failures h as (deref s r) (world s) = Some (msgs, ev', w') \<Longrightarrow> r < length (objs s) \<Longrightarrow>
   retry_loop h r as s errs = (ex, s', errs') \<Longrightarrow>
     ex \<and> world s' = w' \<and> deref s' r = ev' \<and> errs' = errs @ error_report h msgs \<and>
     length msgs = length as \<and>
     invocations (trace s') = invocations (trace s) @ raised_calls h (id' (deref s r)) as msgs"
proof (induction as arbitrary: s errs msgs)
  case Nil
  then show ?case by (simp add: raised_calls_def error_report_def)
next
  case (Cons a as)
  from Cons.prems(1) obtain e wa rest where
    c: "call h ((deref s r)\<lparr>attempts := a + 1\<rparr>) (world s) = (Raised e, wa)" and
    f: "failures h as ((deref s r)\<lparr>attempts := a + 1, last_error := Some e\<rparr>) wa = Some (rest, ev', w')"
    and m: "msgs = e # rest"
    by (rule failures_Cons)
  from Cons.prems(2) have d: "deref (assign r (\<lambda>e. e\<lparr>attempts := a + 1\<rparr>) s) r =
      (deref s r)\<lparr>attempts := a + 1\<rparr>"
    by simp
  from Cons.prems(3) show ?case
  proof (cases rule: retry_loop_cases)
    case (Returned wb)
    with c d show ?thesis by simp
  next
    case (Raised e2 wb)
    with c d have eq: "e2 = e" "wb = wa"
      by simp_all
    let ?s4 = "after_raise h r a e wa s"
    from Cons.prems(2) have d4: "deref ?s4 r = (deref s r)\<lparr>attempts := a + 1, last_error := Some e\<rparr>"
      and w4: "world ?s4 = wa" and r4: "r < length (objs ?s4)"
      by (simp_all add: after_raise_deref)
    from f d4 w4 have f4: "failures h as (deref ?s4 r) (world ?s4) = Some (rest, ev', w')"
      by simp
    from Raised(2) eq have rl:
      "retry_loop h r as ?s4 (errs @ [hname h @ '': '' @ e]) = (ex, s', errs')"
      by simp
    have "ex \<and> world s' = w' \<and> deref s' r = ev' \<and>
       errs' = (errs @ [hname h @ '': '' @ e]) @ error_report h rest \<and>
       length rest = length as \<and>
       invocations (trace s') = invocations (trace ?s4) @ raised_calls h (id' (deref ?s4 r)) as rest"
      by (rule Cons.IH [OF f4 r4 rl])
    with m d4 show ?thesis
      by (simp add: raised_calls_def error_report_def)
  qed
qed

lemma retry_loop_success:
  "failures h as (deref s r) (world s) = Some (msgs, ev', w') \<Longrightarrow>
   call h (ev'\<lparr>attempts := a + 1\<rparr>) w' = (Returned, w'') \<Longrightarrow> r < length (objs s) \<Longrightarrow>
   retry_loop h r (as @ a # rest) s errs = (ex, s', errs') \<Longrightarrow>
     \<not> ex \<and> world s' = w'' \<and> deref s' r = ev'\<lparr>attempts := a + 1\<rparr> \<and>
     errs' = errs @ error_report h msgs \<and> length msgs = length as \<and>
     invocations (trace s') = invocations (trace s) @ raised_calls h (id' (deref s r)) as msgs @
       [Invoke (hname h) (id' (deref s r)) (a + 1) Returned]"
proof (induction as arbitrary: s errs msgs)
  case Nil
  from Nil.prems(1) have eq: "msgs = []" "ev' = deref s r" "w' = world s"
    by simp_all
  from Nil.prems(3) have d: "deref (assign r (\<lambda>e. e\<lparr>attempts := a + 1\<rparr>) s) r =
      (deref s r)\<lparr>attempts := a + 1\<rparr>"
    by simp
  from Nil.prems(4) have "retry_loop h r (a # rest) s errs = (ex, s', errs')"
    by simp
  then show ?case
  proof (cases rule: retry_loop_cases)
    case (Returned wb)
    with Nil.prems(2,3) eq d show ?thesis
      by (simp add: raised_calls_def error_report_def after_return_deref)
  next
    case (Raised e2 wb)
    with Nil.prems(2) eq d show ?thesis by simp
  qed
next
  case (Cons b as)
  from Cons.prems(1) obtain e wa tl where
    c: "call h ((deref s r)\<lparr>attempts := b + 1\<rparr>) (world s) = (Raised e, wa)" and
    f: "failures h as ((deref s r)\<lparr>attempts := b + 1, last_error := Some e\<rparr>) wa = Some (tl, ev', w')"
    and m: "msgs = e # tl"
    by (rule failures_Cons)
  from Cons.prems(3) have d: "deref (assign r (\<lambda>e. e\<lparr>attempts := b + 1\<rparr>) s) r =
      (deref s r)\<lparr>attempts := b + 1\<rparr>"
    by simp
  from Cons.prems(4) have "retry_loop h r (b # as @ a # rest) s errs = (ex, s', errs')"
    by simp
  then show ?case
  proof (cases rule: retry_loop_cases)
    case (Returned wb)
    with c d show ?thesis by simp
  next
    case (Raised e2 wb)
    with c d have eq: "e2 = e" "wb = wa"
      by simp_all
    let ?s4 = "after_raise h r b e wa s"
    from Cons.prems(3) have d4: "deref ?s4 r = (deref s r)\<lparr>attempts := b + 1, last_error := Some e\<rparr>"
      and w4: "world ?s4 = wa" and r4: "r < length (objs ?s4)"
      by (simp_all add: after_raise_deref)
    from f d4 w4 have f4: "failures h as (deref ?s4 r) (world ?s4) = Some (tl, ev', w')"
      by simp
    from Raised(2) eq have rl:
      "retry_loop h r (as @ a # rest) ?s4 (errs @ [hname h @ '': '' @ e]) = (ex, s', errs')"
      by simp
    have "\<not> ex \<and> world s' = w'' \<and> deref s' r = ev'\<lparr>attempts := a + 1\<rparr> \<and>
       errs' = (errs @ [hname h @ '': '' @ e]) @ error_report h tl \<and> length tl = length as \<and>
       invocations (trace s') = invocations (trace ?s4) @ raised_calls h (id' (deref ?s4 r)) as tl @
         [Invoke (hname h) (id' (deref ?s4 r)) (a + 1) Returned]"
      by (rule Cons.IH [OF f4 Cons.prems(2) r4 rl])
    with m d4 show ?thesis
      by (simp add: raised_calls_def error_report_def)
  qed
qed

subsection \<open>The loop over the handlers\<close>


lemma py_range_shape:
  "distinct (py_range m)" "py_range m \<noteq> [] \<longrightarrow> last (py_range m) = m - 1"
  "1 \<le> m \<Longrightarrow> py_range m \<noteq> []" "length (py_range m) = nat m"
  by (auto simp: py_range_def distinct_map last_map)

lemma py_range_split:
  assumes "1 \<le> k" "int k \<le> m"
  shows "py_range m = py_range (int k - 1) @ (int k - 1) # map int [k..<nat m]"
proof -
  from assms have "k - 1 \<le> nat m"
    by linarith
  then obtain n where n: "nat m = (k - 1) + n"
    using le_Suc_ex by blast
  have "[0..<nat m] = [0..<k - 1] @ [k - 1..<nat m]"
    unfolding n by (rule upt_add_eq_append) simp
  also from assms have "[k - 1..<nat m] = (k - 1) # [k..<nat m]"
    by (simp add: upt_conv_Cons)
  finally show ?thesis
    using assms by (simp add: py_range_def nat_diff_distrib' of_nat_diff)
qed

lemma handler_loop_frame:
  "handler_loop hs r s errs = (s', errs') \<Longrightarrow>
     event_log s' = event_log s \<and>
     handlers s' = handlers s \<and> max_retries s' = max_retries s \<and>
     retry_delay s' = retry_delay s \<and> webhook_secret s' = webhook_secret s \<and>
     length (objs s') = length (objs s)"
proof (induction hs arbitrary: s errs)
  case Nil
  then show ?case by simp
next
  case (Cons h hs)
  obtain ex s1 errs1 where rl: "retry_loop h r (py_range (max_retries s)) s errs = (ex, s1, errs1)"
    by (cases "retry_loop h r (py_range (max_retries s)) s errs")
  with Cons.prems have "handler_loop hs r
      (if ex then s1\<lparr>failed_events := failed_events s1 @ [r]\<rparr> else s1) errs1 = (s', errs')"
    by simp
  from Cons.IH [OF this] retry_loop_frame [OF rl] show ?case
    by (simp split: if_splits)
qed

lemma handler_loop_deref:
  "handler_loop hs r s errs = (s', errs') \<Longrightarrow>
     id' (deref s' q) = id' (deref s q) \<and> type' (deref s' q) = type' (deref s q) \<and>
     data (deref s' q) = data (deref s q) \<and> created (deref s' q) = created (deref s q) \<and>
     processed_at (deref s' q) = processed_at (deref s q) \<and>
     (q \<noteq> r \<longrightarrow> deref s' q = deref s q)"
proof (induction hs arbitrary: s errs)
  case Nil
  then show ?case by simp
next
  case (Cons h hs)
  obtain ex s1 errs1 where rl: "retry_loop h r (py_range (max_retries s)) s errs = (ex, s1, errs1)"
    by (cases "retry_loop h r (py_range (max_retries s)) s errs")
  with Cons.prems have "handler_loop hs r
      (if ex then s1\<lparr>failed_events := failed_events s1 @ [r]\<rparr> else s1) errs1 = (s', errs')"
    by simp
  from Cons.IH [OF this] retry_loop_deref [OF rl, of q] show ?case
    by (simp split: if_splits)
qed

lemma handler_loop_errors:
  "handler_loop hs r s errs = (s', errs') \<Longrightarrow>
     \<exists>new. errs' = errs @ new \<and> error_lines (trace s') = error_lines (trace s) @ new"
proof (induction hs arbitrary: s errs)
  case Nil
  then show ?case by simp
next
  case (Cons h hs)
  obtain ex s1 errs1 where rl: "retry_loop h r (py_range (max_retries s)) s errs = (ex, s1, errs1)"
    by (cases "retry_loop h r (py_range (max_retries s)) s errs")
  with Cons.prems have "handler_loop hs r
      (if ex then s1\<lparr>failed_events := failed_events s1 @ [r]\<rparr> else s1) errs1 = (s', errs')"
    by simp
  from Cons.IH [OF this] retry_loop_errors [OF rl] show ?case
    by (auto split: if_splits)
qed


lemma handler_loop_failed:
  "handler_loop hs r s errs = (s', errs') \<Longrightarrow> 1 \<le> max_retries s \<Longrightarrow>
     exhaustions (max_retries s) (trace s) \<le> exhaustions (max_retries s) (trace s') \<and>
     failed_events s' = failed_events s @
       replicate (exhaustions (max_retries s) (trace s') - exhaustions (max_retries s) (trace s)) r"
proof (induction hs arbitrary: s errs)
  case Nil
  then show ?case by simp
next
  case (Cons h hs)
  obtain ex s1 errs1 where rl: "retry_loop h r (py_range (max_retries s)) s errs = (ex, s1, errs1)"
    by (cases "retry_loop h r (py_range (max_retries s)) s errs")
  with Cons.prems have hl: "handler_loop hs r
      (if ex then s1\<lparr>failed_events := failed_events s1 @ [r]\<rparr> else s1) errs1 = (s', errs')"
    by simp
  from Cons.prems(2) have ne: "py_range (max_retries s) \<noteq> []"
    by (simp add: py_range_shape)
  from retry_loop_exhaustions [OF rl py_range_shape(1) py_range_shape(2)] ne
  have ex1: "exhaustions (max_retries s) (trace s1) =
      exhaustions (max_retries s) (trace s) + (if ex then 1 else 0)"
    by simp
  from Cons.IH [OF hl] retry_loop_frame [OF rl] Cons.prems(2) ex1 show ?case
    by (auto split: if_splits simp: replicate_app_Cons_same Suc_diff_le simp flip: replicate_Suc)
qed

lemma handler_loop_failed_refs:
  "handler_loop hs r s errs = (s', errs') \<Longrightarrow>
     \<exists>n. failed_events s' = failed_events s @ replicate n r"
proof (induction hs arbitrary: s errs)
  case Nil
  then show ?case by simp
next
  case (Cons h hs)
  obtain ex s1 errs1 where rl: "retry_loop h r (py_range (max_retries s)) s errs = (ex, s1, errs1)"
    by (cases "retry_loop h r (py_range (max_retries s)) s errs")
  with Cons.prems have hl: "handler_loop hs r
      (if ex then s1\<lparr>failed_events := failed_events s1 @ [r]\<rparr> else s1) errs1 = (s', errs')"
    by simp
  from Cons.IH [OF hl] retry_loop_frame [OF rl] show ?case
    by (auto split: if_splits simp: replicate_app_Cons_same simp flip: replicate_Suc)
qed

subsection \<open>Processing one event\<close>

lemma process_event_cases:
  assumes "process_event r now s = (res, s')"
  obtains (Ignored) "get_handlers s (type' (deref s r)) = []"
      "res = Ignored (type' (deref s r))" "s' = s\<lparr>event_log := event_log s @ [r]\<rparr>"
  | (Handled) s1 errs where "get_handlers s (type' (deref s r)) \<noteq> []"
      "handler_loop (get_handlers s (type' (deref s r))) r s [] = (s1, errs)"
      "s' = (assign r (\<lambda>e. e\<lparr>processed_at := Some now\<rparr>) s1)\<lparr>event_log := event_log s1 @ [r]\<rparr>"
      "res = (if errs \<noteq> [] then PartialFailure (id' (deref s r)) errs
              else Processed (id' (deref s r)))"
proof (cases "get_handlers s (type' (deref s r)) = []")
  case True
  with assms that(1) show thesis
    by (simp add: process_event_def)
next
  case False
  obtain s1 errs where hl: "handler_loop (get_handlers s (type' (deref s r))) r s [] = (s1, errs)"
    by (cases "handler_loop (get_handlers s (type' (deref s r))) r s []")
  have "id' (deref (assign r (\<lambda>e. e\<lparr>processed_at := Some now\<rparr>) s1) r) = id' (deref s r)"
    using handler_loop_deref [OF hl, of r]
    by (cases "r < length (objs s1)") (simp_all add: deref_assign_beyond)
  with assms False hl that(2) [of s1 errs] show thesis
    by (simp add: process_event_def Let_def split: if_splits)
qed

lemma process_event_frame:
  assumes "process_event r now s = (res, s')"
  shows "event_log s' = event_log s @ [r] \<and> handlers s' = handlers s \<and>
    max_retries s' = max_retries s \<and> retry_delay s' = retry_delay s \<and>
    webhook_secret s' = webhook_secret s \<and> length (objs s') = length (objs s) \<and>
    id' (deref s' q) = id' (deref s q) \<and> type' (deref s' q) = type' (deref s q) \<and>
    (q \<noteq> r \<longrightarrow> deref s' q = deref s q) \<and>
    (\<exists>n. failed_events s' = failed_events s @ replicate n r)"
  using assms
proof (cases rule: process_event_cases)
  case Ignored
  then show ?thesis by simp
next
  case (Handled s1 errs)
  have "id' (deref (assign r (\<lambda>e. e\<lparr>processed_at := Some now\<rparr>) s1) q) = id' (deref s1 q)"
    "type' (deref (assign r (\<lambda>e. e\<lparr>processed_at := Some now\<rparr>) s1) q) = type' (deref s1 q)"
    by (cases "r < length (objs s1)"; cases "q = r"; simp add: deref_assign_beyond)+
  with Handled(3) handler_loop_frame [OF Handled(2)] handler_loop_deref [OF Handled(2), of q]
    handler_loop_failed_refs [OF Handled(2)]
  show ?thesis
    by simp
qed


lemma process_event_trace:
  assumes "process_event r now s = (res, s')" "get_handlers s (type' (deref s r)) \<noteq> []"
  shows "\<exists>errs. error_lines (trace s') = error_lines (trace s) @ errs \<and>
     res = (if errs \<noteq> [] then PartialFailure (id' (deref s r)) errs
            else Processed (id' (deref s r)))"
  using assms(1)
proof (cases rule: process_event_cases)
  case Ignored
  with assms(2) show ?thesis by simp
next
  case (Handled s1 errs)
  with handler_loop_errors [OF Handled(2)] show ?thesis by auto
qed

lemma process_event_failed:
  assumes "process_event r now s = (res, s')" "1 \<le> max_retries s"
  shows "exhaustions (max_retries s) (trace s) \<le> exhaustions (max_retries s) (trace s') \<and>
    failed_events s' = failed_events s @
       replicate (exhaustions (max_retries s) (trace s') - exhaustions (max_retries s) (trace s)) r"
  using assms(1)
proof (cases rule: process_event_cases)
  case Ignored
  then show ?thesis by simp
next
  case (Handled s1 errs)
  with handler_loop_failed [OF Handled(2) assms(2)] show ?thesis by simp
qed


lemma log_ids_after:
  assumes "process_event r now s = (res, s')"
  shows "log_ids s' = log_ids s @ [id' (deref s r)]"
  using process_event_frame [OF assms] by (simp add: log_ids_def)

subsection \<open>The entry point\<close>

lemma process_cases:
  assumes "process l payload signature now s = (out, s')"
  obtains (Unverified) "\<not> verify_signature l s payload signature"
      "out = Inl (HTTPException 400 ''Invalid signature'')" "s' = s"
  | (BadJSON) "verify_signature l s payload signature" "loads l payload = JSONDecodeError"
      "out = Inl (HTTPException 400 ''Invalid JSON'')" "s' = s"
  | (MissingKey) k where "verify_signature l s payload signature" "loads l payload = KeyError k"
      "out = Inl (PyKeyError k)" "s' = s"
  | (Seen) i t d c where "verify_signature l s payload signature"
      "loads l payload = Envelope i t d c" "i \<in> set (log_ids s)"
      "out = Inr (Duplicate i)" "s' = s"
  | (Fresh) i t d c res where "verify_signature l s payload signature"
      "loads l payload = Envelope i t d c" "i \<notin> set (log_ids s)"
      "process_event (length (objs s)) now (s\<lparr>objs := objs s @ [new_event i t d c]\<rparr>) = (res, s')"
      "out = Inr res"
proof (cases "verify_signature l s payload signature")
  case False
  with assms have "out = Inl (HTTPException 400 ''Invalid signature'')" "s' = s"
    by (auto simp: process_def)
  with False that(1) show thesis by blast
next
  case True
  show thesis
  proof (cases "loads l payload")
    case JSONDecodeError
    with True assms have "out = Inl (HTTPException 400 ''Invalid JSON'')" "s' = s"
      by (auto simp: process_def)
    with True JSONDecodeError that(2) show thesis by blast
  next
    case (KeyError k)
    with True assms have "out = Inl (PyKeyError k)" "s' = s"
      by (auto simp: process_def)
    with True KeyError that(3) show thesis by blast
  next
    case (Envelope i t d c)
    show thesis
    proof (cases "i \<in> set (log_ids s)")
      case seen: True
      with True Envelope assms have "out = Inr (Duplicate i)" "s' = s"
        by (auto simp: process_def)
      with True Envelope seen that(4) show thesis by blast
    next
      case False
      obtain res s2 where pe:
        "process_event (length (objs s)) now (s\<lparr>objs := objs s @ [new_event i t d c]\<rparr>) = (res, s2)"
        by (cases "process_event (length (objs s)) now (s\<lparr>objs := objs s @ [new_event i t d c]\<rparr>)")
      with True Envelope False assms have "out = Inr res" "s2 = s'"
        by (auto simp: process_def Let_def)
      with True Envelope False pe that(5) show thesis by blast
    qed
  qed
qed




text \<open>A verified request with a new event id and one handler for its type.\<close>

lemma process_single_handler:
  assumes "verify_signature l s payload signature" "loads l payload = Envelope i t d c"
    "i \<notin> set (log_ids s)" "get_handlers s t = [h]"
    "process l payload signature now s = (out, s')"
  obtains ex sa errs where
    "retry_loop h (length (objs s)) (py_range (max_retries s))
       (s\<lparr>objs := objs s @ [new_event i t d c]\<rparr>) [] = (ex, sa, errs)"
    "failed_events s' = failed_events s @ (if ex then [length (objs s)] else [])"
    "world s' = world sa" "trace s' = trace sa"
    "out = Inr (if errs \<noteq> [] then PartialFailure i errs else Processed i)"
    "process_event (length (objs s)) now (s\<lparr>objs := objs s @ [new_event i t d c]\<rparr>) =
       (if errs \<noteq> [] then PartialFailure i errs else Processed i, s')"
  using assms(5)
proof (cases rule: process_cases)
  case (Fresh i' t' d' c' res)
  with assms(2) have eq: "i' = i" "t' = t" "d' = d" "c' = c"
    by simp_all
  let ?r = "length (objs s)"
  let ?s1 = "s\<lparr>objs := objs s @ [new_event i t d c]\<rparr>"
  from Fresh(4) eq have pe: "process_event ?r now ?s1 = (res, s')"
    by simp
  obtain ex sa errs where rl: "retry_loop h ?r (py_range (max_retries s)) ?s1 [] = (ex, sa, errs)"
    by (cases "retry_loop h ?r (py_range (max_retries s)) ?s1 []")
  note fr = retry_loop_frame [OF rl]
  from pe show ?thesis
  proof (cases rule: process_event_cases)
    case Ignored
    with assms(4) show ?thesis by simp
  next
    case (Handled sb errsb)
    from Handled(2) assms(4) rl
    have sb: "sb = (if ex then sa\<lparr>failed_events := failed_events sa @ [?r]\<rparr> else sa)"
      and errsb: "errsb = errs"
      by (simp_all split: if_splits)
    from Handled(4) errsb have res: "res = (if errs \<noteq> [] then PartialFailure i errs else Processed i)"
      by simp
    from Handled(3) sb fr have "failed_events s' = failed_events s @ (if ex then [?r] else [])"
      "world s' = world sa" "trace s' = trace sa"
      by (simp_all split: if_splits)
    with rl res Fresh(5) pe show ?thesis
      by (intro that [of ex sa errs]) simp_all
  qed
qed (use assms(1,2,3) in simp_all)

subsection \<open>Registration\<close>

lemma on_fields:
  "webhook_secret (on t h s) = webhook_secret s" "max_retries (on t h s) = max_retries s"
  "retry_delay (on t h s) = retry_delay s" "event_log (on t h s) = event_log s"
  "failed_events (on t h s) = failed_events s" "objs (on t h s) = objs s"
  "world (on t h s) = world s" "trace (on t h s) = trace s"
  "get_handlers (on t h s) t = get_handlers s t @ [h]"
  "t' \<noteq> t \<Longrightarrow> get_handlers (on t h s) t' = get_handlers s t'"
  by (simp_all add: on_def get_handlers_def)


subsection \<open>Manual retry\<close>

lemma find_failed_None:
  "find_failed s event_id es i = None \<longleftrightarrow> event_id \<notin> set (map (\<lambda>r. id' (deref s r)) es)"
  by (induction es arbitrary: i) auto

lemma find_failed_Some:
  "find_failed s event_id es k = Some i \<Longrightarrow>
     k \<le> i \<and> i - k < length es \<and> id' (deref s (es ! (i - k))) = event_id \<and>
     (\<forall>j<i - k. id' (deref s (es ! j)) \<noteq> event_id)"
proof (induction es arbitrary: k)
  case Nil
  then show ?case by simp
next
  case (Cons e es)
  show ?case
  proof (cases "id' (deref s e) = event_id")
    case True
    with Cons.prems show ?thesis by simp
  next
    case False
    with Cons.prems have "find_failed s event_id es (Suc k) = Some i"
      by simp
    from Cons.IH [OF this] have ih: "Suc k \<le> i" "i - Suc k < length es"
      "id' (deref s (es ! (i - Suc k))) = event_id"
      "\<forall>j<i - Suc k. id' (deref s (es ! j)) \<noteq> event_id"
      by simp_all
    from ih(1) have ik: "i - k = Suc (i - Suc k)"
      by simp
    from ih False show ?thesis
      unfolding ik by (auto simp: less_Suc_eq_0_disj)
  qed
qed

text \<open>The two ways \<^verbatim>\<open>retry_failed\<close> can go.\<close>

lemma retry_failed_cases:
  assumes "retry_failed event_id now s = (res, s')"
  obtains (Absent) "event_id \<notin> set (failed_ids s)" "res = NotFound" "s' = s"
  | (Found) i where "i < length (failed_events s)"
      "id' (deref s (failed_events s ! i)) = event_id"
      "\<forall>j<i. id' (deref s (failed_events s ! j)) \<noteq> event_id"
      "process_event (failed_events s ! i) now
         (assign (failed_events s ! i) (\<lambda>e. e\<lparr>last_error := None\<rparr>)
           (assign (failed_events s ! i) (\<lambda>e. e\<lparr>attempts := 0\<rparr>)
             (s\<lparr>failed_events := pop i (failed_events s)\<rparr>))) = (res, s')"
proof (cases "find_failed s event_id (failed_events s) 0")
  case None
  then have "event_id \<notin> set (failed_ids s)"
    unfolding find_failed_None failed_ids_def .
  moreover from None assms have "res = NotFound" "s' = s"
    by (auto simp: retry_failed_def)
  ultimately show thesis
    by (rule that(1))
next
  case (Some i)
  from find_failed_Some [OF Some] have "i < length (failed_events s)"
    "id' (deref s (failed_events s ! i)) = event_id"
    "\<forall>j<i. id' (deref s (failed_events s ! j)) \<noteq> event_id"
    by simp_all
  moreover from Some assms have "process_event (failed_events s ! i) now
         (assign (failed_events s ! i) (\<lambda>e. e\<lparr>last_error := None\<rparr>)
           (assign (failed_events s ! i) (\<lambda>e. e\<lparr>attempts := 0\<rparr>)
             (s\<lparr>failed_events := pop i (failed_events s)\<rparr>))) = (res, s')"
    by (simp add: retry_failed_def Let_def)
  ultimately show thesis
    by (rule that(2))
qed

lemma set_pop: "set (pop i xs) \<subseteq> set xs"
  by (auto simp: pop_def dest: in_set_takeD in_set_dropD)

lemma remove1_first:
  "i < length xs \<Longrightarrow> xs ! i = x \<Longrightarrow> \<forall>j<i. xs ! j \<noteq> x \<Longrightarrow> remove1 x xs = pop i xs"
proof (induction xs arbitrary: i)
  case Nil
  then show ?case by simp
next
  case (Cons y ys)
  show ?case
  proof (cases i)
    case 0
    with Cons.prems show ?thesis by (simp add: pop_def)
  next
    case (Suc k)
    with Cons.prems have "y \<noteq> x" "k < length ys" "ys ! k = x" "\<forall>j<k. ys ! j \<noteq> x"
      by auto
    with Cons.IH [of k] Suc show ?thesis
      by (simp add: pop_def)
  qed
qed

text \<open>
  What \<^verbatim>\<open>retry_failed\<close> does to the dead-letter list, for an event with any number of
  entries: one entry of the event goes, and the event is appended once for every handler
  that raised on its last attempt in the new run.
\<close>

lemma retry_failed_dead_letter:
  assumes "well_formed s" "1 \<le> max_retries s" "event_id \<in> set (failed_ids s)"
    "retry_failed event_id now s = (res, s')"
  shows "failed_ids s' = remove1 event_id (failed_ids s) @
    replicate (exhaustions (max_retries s) (trace s') - exhaustions (max_retries s) (trace s))
      event_id"
  using assms(4)
proof (cases rule: retry_failed_cases)
  case Absent
  with assms(3) show ?thesis by simp
next
  case (Found i)
  let ?r = "failed_events s ! i"
  let ?s1 = "s\<lparr>failed_events := pop i (failed_events s)\<rparr>"
  let ?s0 = "assign ?r (\<lambda>e. e\<lparr>last_error := None\<rparr>) (assign ?r (\<lambda>e. e\<lparr>attempts := 0\<rparr>) ?s1)"
  from Found(1,2,3) have "failed_ids s ! i = event_id" "i < length (failed_ids s)"
    "\<forall>j<i. failed_ids s ! j \<noteq> event_id"
    by (simp_all add: failed_ids_def)
  then have "remove1 event_id (failed_ids s) = pop i (failed_ids s)"
    by (intro remove1_first) simp_all
  moreover have "failed_ids ?s1 = pop i (failed_ids s)"
    by (simp add: failed_ids_def pop_def take_map drop_map deref_def)
  ultimately have gone: "failed_ids ?s0 = remove1 event_id (failed_ids s)"
    by (simp add: log_ids_assign)
  have same: "trace ?s0 = trace s" "max_retries ?s0 = max_retries s"
    "id' (deref ?s0 q) = id' (deref s q)" for q
    by (simp_all add: deref_assign)
  note pe = Found(4)
  from process_event_failed [OF pe] assms(2) same
  have fe: "failed_events s' = failed_events ?s0 @
      replicate (exhaustions (max_retries s) (trace s') - exhaustions (max_retries s) (trace s)) ?r"
    by simp
  from process_event_frame [OF pe] same(3) have ids: "id' (deref s' q) = id' (deref s q)" for q
    by simp
  have "failed_ids s' = failed_ids ?s0 @
      replicate (exhaustions (max_retries s) (trace s') - exhaustions (max_retries s) (trace s))
        event_id"
    unfolding failed_ids_def fe using ids same(3) Found(2) by (simp add: map_replicate_const)
  with gone show ?thesis
    by simp
qed

subsection \<open>The invariant\<close>

lemma wf_init: "well_formed (init secret retries delay w)"
  by (simp add: well_formed_def init_def)

lemma wf_on: "well_formed s \<Longrightarrow> well_formed (on t h s)"
  by (simp add: well_formed_def on_def log_ids_def deref_def)

lemma wf_process_event:
  assumes "well_formed s" "r < length (objs s)" "process_event r now s = (res, s')"
  shows "well_formed s'"
proof -
  note fr = process_event_frame [OF assms(3)]
  from fr obtain n where n: "failed_events s' = failed_events s @ replicate n r"
    by blast
  from fr have len: "length (objs s') = length (objs s)" and log: "event_log s' = event_log s @ [r]"
    and ids: "\<And>q. id' (deref s' q) = id' (deref s q)"
    by simp_all
  have lids: "log_ids s' = log_ids s @ [id' (deref s r)]"
    by (rule log_ids_after [OF assms(3)])
  from assms(1,2) show ?thesis
    by (auto simp: well_formed_def n len log ids lids list_all_iff)
qed

lemma wf_alloc:
  assumes "well_formed s"
  shows "well_formed (s\<lparr>objs := objs s @ [e]\<rparr>)"
proof -
  from assms have "\<forall>q\<in>set (event_log s). deref (s\<lparr>objs := objs s @ [e]\<rparr>) q = deref s q"
    by (simp add: well_formed_def list_all_iff deref_alloc_old)
  then have "log_ids (s\<lparr>objs := objs s @ [e]\<rparr>) = log_ids s"
    by (simp add: log_ids_def)
  with assms show ?thesis
    by (auto simp: well_formed_def list_all_iff deref_alloc_old)
qed

lemma wf_process:
  assumes "well_formed s" "process l payload signature now s = (out, s')"
  shows "well_formed s'"
  using assms(2)
proof (cases rule: process_cases)
  case (Fresh i t d c res)
  have "length (objs s) < length (objs (s\<lparr>objs := objs s @ [new_event i t d c]\<rparr>))"
    by simp
  from wf_process_event [OF wf_alloc [OF assms(1)] this Fresh(4)] show ?thesis .
qed (use assms(1) in simp_all)

lemma wf_assign:
  "(\<And>e. id' (f e) = id' e) \<Longrightarrow> well_formed s \<Longrightarrow> well_formed (assign r f s)"
  by (simp add: well_formed_def log_ids_assign)

lemma wf_pop: "well_formed s \<Longrightarrow> well_formed (s\<lparr>failed_events := pop i (failed_events s)\<rparr>)"
  using set_pop [of i "failed_events s"]
  by (auto simp: well_formed_def list_all_iff log_ids_def deref_def)

lemma wf_retry_failed:
  assumes "well_formed s" "retry_failed event_id now s = (res, s')"
  shows "well_formed s'"
  using assms(2)
proof (cases rule: retry_failed_cases)
  case Absent
  with assms(1) show ?thesis by simp
next
  case (Found i)
  let ?r = "failed_events s ! i"
  from assms(1) Found(1) have r: "?r < length (objs s)"
    by (simp add: well_formed_def list_all_length)
  have "well_formed (assign ?r (\<lambda>e. e\<lparr>last_error := None\<rparr>)
           (assign ?r (\<lambda>e. e\<lparr>attempts := 0\<rparr>)
             (s\<lparr>failed_events := pop i (failed_events s)\<rparr>)))"
    by (intro wf_assign wf_pop assms(1)) simp_all
  from wf_process_event [OF this _ Found(4)] r show ?thesis
    by simp
qed

section \<open>Lemmas about the router\<close>



lemma record_failure_raises: "\<exists>y e1. record_failure event now x e = (Inl y, e1)"
  by (simp add: record_failure_def storage_put_def)

lemma record_failure_written:
  assumes "\<not> unwritable e (''failed:'' @ ev_id event)"
  shows "\<exists>e1. record_failure event now x e = (Inl x, e1) \<and>
     kv e1 = (kv e)(''failed:'' @ ev_id event \<mapsto>
       JObj [(''event_id'', JStr (ev_id event)), (''event_type'', JStr (ev_type event)),
             (''error'', JStr x), (''failed_at'', JInt now)])"
  using assms by (simp add: record_failure_def storage_put_def)



section \<open>Facts about the example inputs\<close>

lemma demo_handlers:
  "get_handlers (on ''invoice.paid'' h demo_processor) ''invoice.paid'' = [h]"
  by (simp add: get_handlers_def on_def demo_processor_def new_processor_def init_def)

lemma demo_fields:
  "max_retries (on t h demo_processor) = 3" "log_ids (on t h demo_processor) = []"
  "verify_signature demo_lib (on t h demo_processor) ''evt_1'' ''whsec''"
  "loads demo_lib ''evt_1'' = Envelope ''evt_1'' ''invoice.paid'' JNull 0"
  "well_formed (on t h demo_processor)"
  "event_log (on t h demo_processor) = []" "failed_events (on t h demo_processor) = []"
  "trace (on t h demo_processor) = []"
  by (simp_all add: on_def demo_processor_def new_processor_def init_def log_ids_def
        verify_signature_def demo_lib_def well_formed_def)

lemma demo_fresh: "''evt_1'' \<notin> set (log_ids (on t h demo_processor))"
  by (simp add: demo_fields)

lemma failing_run_pair:
  "process demo_lib ''evt_1'' ''whsec'' 5 (on ''invoice.paid'' always_failing demo_processor) =
     (fst failing_run, snd failing_run)"
  by (simp add: failing_run_def)

lemma flaky_run_pair:
  "process demo_lib ''evt_1'' ''whsec'' 5 (on ''invoice.paid'' (flaky 2) demo_processor) =
     (fst flaky_run, snd flaky_run)"
  by (simp add: flaky_run_def)

lemma failing_attempts:
  "failures always_failing (py_range 3) (new_event ''evt_1'' ''invoice.paid'' JNull 0) 0 =
     Some ([''boom'', ''boom'', ''boom''],
       (new_event ''evt_1'' ''invoice.paid'' JNull 0)\<lparr>attempts := 3, last_error := Some ''boom''\<rparr>, 3)"
  by code_simp

lemma flaky_attempts:
  "failures (flaky 2) (py_range (int 2 - 1)) (new_event ''evt_1'' ''invoice.paid'' JNull 0) 0 =
     Some ([''busy''],
       (new_event ''evt_1'' ''invoice.paid'' JNull 0)\<lparr>attempts := 1, last_error := Some ''busy''\<rparr>, 1)"
  "call (flaky 2)
     ((new_event ''evt_1'' ''invoice.paid'' JNull 0)\<lparr>attempts := 1, last_error := Some ''busy'',
        attempts := int 2\<rparr>) 1 = (Returned, 2)"
  by (simp_all add: flaky_def py_range_def new_event_def)


section \<open>The claims\<close>




text \<open>
  C2, as stated, fails: a handler that raises on attempt 1 and returns on attempt 2 (of
  at most 3) leaves the status \<open>partial_failure\<close>, since the error of every failed attempt
  is kept in \<^verbatim>\<open>errors\<close>. The event is not put in the dead-letter list.
\<close>

theorem C2_counterexample:
  "fst flaky_run = Inr (PartialFailure ''evt_1'' [''flaky: busy'']) \<and>
   status (PartialFailure ''evt_1'' [''flaky: busy'']) \<noteq> ''processed'' \<and>
   trace (snd flaky_run) =
     [Invoke ''flaky'' ''evt_1'' 1 (Raised ''busy''), Sleep 60, Invoke ''flaky'' ''evt_1'' 2 Returned] \<and>
   failed_events (snd flaky_run) = []"
  by code_simp

text \<open>
  C2, amended. A single registered handler that, in the run, raises on the attempts
  1 to \<open>k - 1\<close> and returns on attempt \<open>k\<close>, with \<open>1 \<le> k \<le> max_retries\<close>: the handler is
  called exactly \<open>k\<close> times, each call acting on the world the call before left, and the
  event is not added to the dead-letter list; the status is \<open>processed\<close> when \<open>k = 1\<close>, and
  \<open>partial_failure\<close>, with the \<open>k - 1\<close> errors of the failed attempts, when \<open>k > 1\<close>.
\<close>

theorem C2_retry_success:
  assumes "verify_signature l s payload signature"
    and "loads l payload = Envelope i t d c"
    and "i \<notin> set (log_ids s)"
    and "get_handlers s t = [h]"
    and "1 \<le> k" and "int k \<le> max_retries s"
    and "failures h (py_range (int k - 1)) (new_event i t d c) (world s) = Some (msgs, ev', w')"
    and "call h (ev'\<lparr>attempts := int k\<rparr>) w' = (Returned, w'')"
    and "process l payload signature now s = (out, s')"
  shows "failed_events s' = failed_events s \<and>
    invocations (trace s') =
      invocations (trace s) @ raised_calls h i (py_range (int k - 1)) msgs @
        [Invoke (hname h) i (int k) Returned] \<and>
    length (invocations (trace s')) = length (invocations (trace s)) + k \<and>
    length msgs = k - 1 \<and>
    world s' = w'' \<and>
    (k = 1 \<longrightarrow> out = Inr (Processed i) \<and> status (Processed i) = ''processed'') \<and>
    (1 < k \<longrightarrow> out = Inr (PartialFailure i (error_report h msgs)) \<and>
       status (PartialFailure i (error_report h msgs)) = ''partial_failure'')"
  using assms(1,2,3,4,9)
proof (cases rule: process_single_handler)
  case (1 ex sa errs)
  let ?r = "length (objs s)"
  let ?s1 = "s\<lparr>objs := objs s @ [new_event i t d c]\<rparr>"
  let ?as = "py_range (int k - 1)"
  from assms(7) have f: "failures h ?as (deref ?s1 ?r) (world ?s1) = Some (msgs, ev', w')"
    by simp
  from assms(8) have c: "call h (ev'\<lparr>attempts := (int k - 1) + 1\<rparr>) w' = (Returned, w'')"
    by simp
  have r: "?r < length (objs ?s1)"
    by simp
  from 1(1) py_range_split [OF assms(5,6)]
  have rl: "retry_loop h ?r (?as @ (int k - 1) # map int [k..<nat (max_retries s)]) ?s1 [] =
      (ex, sa, errs)"
    by simp
  have run: "\<not> ex \<and> world sa = w'' \<and> deref sa ?r = ev'\<lparr>attempts := (int k - 1) + 1\<rparr> \<and>
     errs = [] @ error_report h msgs \<and> length msgs = length ?as \<and>
     invocations (trace sa) = invocations (trace ?s1) @ raised_calls h (id' (deref ?s1 ?r)) ?as msgs @
       [Invoke (hname h) (id' (deref ?s1 ?r)) ((int k - 1) + 1) Returned]"
    by (rule retry_loop_success [OF f c r rl])
  from assms(5) have len: "length ?as = k - 1"
    by (simp add: py_range_shape)
  with run have "length (raised_calls h i ?as msgs) = k - 1"
    by (simp add: raised_calls_length)
  with run len 1(2,3,4,5) assms(5) show ?thesis
    by (auto simp: error_report_def)
qed

theorem C2_retry_success_witness:
  "failed_events (snd flaky_run) = [] \<and>
   invocations (trace (snd flaky_run)) =
     [Invoke ''flaky'' ''evt_1'' 1 (Raised ''busy''), Invoke ''flaky'' ''evt_1'' 2 Returned] \<and>
   world (snd flaky_run) = 2 \<and>
   fst flaky_run = Inr (PartialFailure ''evt_1'' [''flaky: busy''])"
proof -
  have w: "world (on ''invoice.paid'' (flaky 2) demo_processor) = 0"
    by (simp add: on_fields demo_processor_def new_processor_def init_def)
  have "(1::nat) \<le> 2" "int 2 \<le> max_retries (on ''invoice.paid'' (flaky 2) demo_processor)"
    by (simp_all add: demo_fields)
  from C2_retry_success
    [OF demo_fields(3) demo_fields(4) demo_fresh demo_handlers this
        flaky_attempts(1) [folded w] flaky_attempts(2) flaky_run_pair]
  show ?thesis
    by (simp add: demo_fields raised_calls_def error_report_def py_range_def flaky_def)
qed

text \<open>
  C3, as stated, fails when \<^verbatim>\<open>max_retries\<close> is negative: \<^verbatim>\<open>range(self.max_retries)\<close> is
  then empty, the handler is not called at all (the world it acts on is untouched), and
  the event is put in the dead-letter list all the same.
\<close>

theorem C3_counterexample:
  "max_retries (on ''invoice.paid'' always_failing (init ''whsec'' (- 1) 60 (0::nat))) = - 1 \<and>
   invocations (trace (snd negative_run)) = [] \<and>
   world (snd negative_run) = 0 \<and>
   failed_ids (snd negative_run) = [''evt_1'']"
  by code_simp

text \<open>
  C3, amended. An event whose single registered handler raises on every attempt of the
  run: the handler is called exactly \<open>max (max_retries, 0)\<close> times, at the attempt numbers
  1, 2, ... in turn, each call acting on the world the call before left; afterwards the
  event is in the dead-letter list exactly once, and the status is \<open>partial_failure\<close> with
  the errors of the calls (\<open>processed\<close> when no call was made). The default of
  \<^verbatim>\<open>max_retries\<close> is 3.
\<close>

theorem C3_retry_bound:
  assumes "well_formed s"
    and "verify_signature l s payload signature"
    and "loads l payload = Envelope i t d c"
    and "i \<notin> set (log_ids s)"
    and "get_handlers s t = [h]"
    and "failures h (py_range (max_retries s)) (new_event i t d c) (world s) = Some (msgs, ev', w')"
    and "process l payload signature now s = (out, s')"
  shows "invocations (trace s') =
      invocations (trace s) @ raised_calls h i (py_range (max_retries s)) msgs \<and>
    length (invocations (trace s')) = length (invocations (trace s)) + nat (max_retries s) \<and>
    world s' = w' \<and>
    count_list (failed_ids s') i = 1 \<and>
    out = Inr (if msgs = [] then Processed i else PartialFailure i (error_report h msgs)) \<and>
    max_retries (new_processor secret w) = 3"
  using assms(2,3,4,5,7)
proof (cases rule: process_single_handler)
  case (1 ex sa errs)
  let ?r = "length (objs s)"
  let ?s1 = "s\<lparr>objs := objs s @ [new_event i t d c]\<rparr>"
  from assms(6) have "failures h (py_range (max_retries s)) (deref ?s1 ?r) (world ?s1) =
      Some (msgs, ev', w')"
    by simp
  moreover have "?r < length (objs ?s1)"
    by simp
  ultimately have run: "ex \<and> world sa = w' \<and> deref sa ?r = ev' \<and>
     errs = [] @ error_report h msgs \<and> length msgs = length (py_range (max_retries s)) \<and>
     invocations (trace sa) =
       invocations (trace ?s1) @ raised_calls h (id' (deref ?s1 ?r)) (py_range (max_retries s)) msgs"
    using 1(1) by (rule retry_loop_failures)
  note fr = process_event_frame [OF 1(6)]
  from fr [of ?r] have idr: "id' (deref s' ?r) = i"
    by simp
  have "id' (deref s' q) \<noteq> i" if "q \<in> set (failed_events s)" for q
  proof -
    from that assms(1) have "q < length (objs s)" "id' (deref s q) \<in> set (log_ids s)"
      by (simp_all add: well_formed_def list_all_iff)
    with fr [of q] assms(4) show ?thesis
      by (auto simp: deref_alloc_old)
  qed
  then have "count_list (map (\<lambda>r. id' (deref s' r)) (failed_events s)) i = 0"
    by (auto simp: count_list_0_iff)
  with run 1(2) idr have once: "count_list (failed_ids s') i = 1"
    by (simp add: failed_ids_def)
  from run have "length (raised_calls h i (py_range (max_retries s)) msgs) = nat (max_retries s)"
    by (simp add: raised_calls_length py_range_shape)
  with run 1(3,4,5) once show ?thesis
    by (simp add: new_processor_def init_def error_report_def)
qed

theorem C3_retry_bound_witness:
  "invocations (trace (snd failing_run)) =
     [Invoke ''on_invoice_paid'' ''evt_1'' 1 (Raised ''boom''),
      Invoke ''on_invoice_paid'' ''evt_1'' 2 (Raised ''boom''),
      Invoke ''on_invoice_paid'' ''evt_1'' 3 (Raised ''boom'')] \<and>
   world (snd failing_run) = 3 \<and>
   count_list (failed_ids (snd failing_run)) ''evt_1'' = 1 \<and>
   fst failing_run =
     Inr (PartialFailure ''evt_1''
       [''on_invoice_paid: boom'', ''on_invoice_paid: boom'', ''on_invoice_paid: boom''])"
proof -
  have "failures always_failing (py_range (max_retries (on ''invoice.paid'' always_failing demo_processor)))
      (new_event ''evt_1'' ''invoice.paid'' JNull 0)
      (world (on ''invoice.paid'' always_failing demo_processor)) =
     Some ([''boom'', ''boom'', ''boom''],
       (new_event ''evt_1'' ''invoice.paid'' JNull 0)\<lparr>attempts := 3, last_error := Some ''boom''\<rparr>, 3)"
    by (simp add: demo_fields on_fields demo_processor_def new_processor_def init_def failing_attempts)
  from C3_retry_bound
    [OF demo_fields(5) demo_fields(3) demo_fields(4) demo_fresh demo_handlers this failing_run_pair,
     where secret = "''whsec''" and w = "0::nat"]
  show ?thesis
    by (simp add: demo_fields raised_calls_def error_report_def py_range_def upt_conv_Cons
          always_failing_def)
qed

text \<open>
  C4, as stated, fails for \<^verbatim>\<open>EventRouter.process_webhook\<close>: the exception of a handler is
  recorded under \<^verbatim>\<open>failed:{id}\<close> and raised again, so it reaches the caller, and nothing
  is stored under \<^verbatim>\<open>event:{id}\<close>.
\<close>

theorem C4_counterexample:
  "fst (process_webhook router_lib broken_router ''evt_1'' ''whsec'' 7 demo_env) = Inl ''boom'' \<and>
   kv (fst (snd (process_webhook router_lib broken_router ''evt_1'' ''whsec'' 7 demo_env)))
      ''failed:evt_1'' =
     Some (JObj [(''event_id'', JStr ''evt_1''), (''event_type'', JStr ''invoice.paid''),
                 (''error'', JStr ''boom''), (''failed_at'', JInt 7)]) \<and>
   kv (fst (snd (process_webhook router_lib broken_router ''evt_1'' ''whsec'' 7 demo_env)))
      ''event:evt_1'' = None"
  by code_simp

text \<open>
  C4, amended. \<^verbatim>\<open>WebhookProcessor.process\<close> does not raise for a handler failure: once the
  request is verified and its envelope read, it returns a status, and when calls of
  handlers raised in the run the status is \<open>partial_failure\<close> with the error lines of
  those calls. \<^verbatim>\<open>EventRouter.process_webhook\<close> does raise when its handler raises: the call
  ends in an exception, which is the handler's own when the write of \<^verbatim>\<open>failed:{id}\<close> is
  accepted, and that record is then in the storage.
\<close>

theorem C4_failure_reporting:
  "(verify_signature l s payload signature \<and> loads l payload = Envelope i t d c \<and>
    process l payload signature now s = (out, s') \<longrightarrow>
      (\<exists>res. out = Inr res \<and>
         (\<forall>errs. errs \<noteq> [] \<and> error_lines (trace s') = error_lines (trace s) @ errs \<longrightarrow>
            res = PartialFailure i errs \<and> status res = ''partial_failure''))) \<and>
   (construct_event l' payload' signature' (router_secret rt) = Constructed event \<and>
    \<not> (case storage_get (''event:'' @ ev_id event) e of None \<Rightarrow> False | Some v \<Rightarrow> truthy v) \<and>
    router_handlers rt (ev_type event) = Some h \<and> handle h event e = (Inl x, eh) \<longrightarrow>
      (\<exists>y e2. process_webhook l' rt payload' signature' now' e = (Inl y, e2, [class_name h]) \<and>
         (\<not> unwritable eh (''failed:'' @ ev_id event) \<longrightarrow>
            y = x \<and>
            kv e2 = (kv eh)(''failed:'' @ ev_id event \<mapsto>
              JObj [(''event_id'', JStr (ev_id event)), (''event_type'', JStr (ev_type event)),
                    (''error'', JStr x), (''failed_at'', JInt now')]))))"
proof (intro conjI impI)
  assume a: "verify_signature l s payload signature \<and> loads l payload = Envelope i t d c \<and>
    process l payload signature now s = (out, s')"
  then have "process l payload signature now s = (out, s')"
    by simp
  then show "\<exists>res. out = Inr res \<and>
         (\<forall>errs. errs \<noteq> [] \<and> error_lines (trace s') = error_lines (trace s) @ errs \<longrightarrow>
            res = PartialFailure i errs \<and> status res = ''partial_failure'')"
  proof (cases rule: process_cases)
    case (Seen i' t' d' c')
    then show ?thesis by simp
  next
    case (Fresh i' t' d' c' res)
    with a have eq: "i' = i" "t' = t" "d' = d" "c' = c"
      by simp_all
    let ?r = "length (objs s)"
    let ?s1 = "s\<lparr>objs := objs s @ [new_event i t d c]\<rparr>"
    from Fresh(4) eq have pe: "process_event ?r now ?s1 = (res, s')"
      by simp
    show ?thesis
    proof (cases "get_handlers s t = []")
      case True
      from pe have "trace s' = trace s"
        by (cases rule: process_event_cases) (use True in simp_all)
      with Fresh(5) show ?thesis by simp
    next
      case False
      then have "get_handlers ?s1 (type' (deref ?s1 ?r)) \<noteq> []"
        by simp
      from process_event_trace [OF pe this] Fresh(5) show ?thesis
        by auto
    qed
  qed (use a in simp_all)
next
  assume b: "construct_event l' payload' signature' (router_secret rt) = Constructed event \<and>
    \<not> (case storage_get (''event:'' @ ev_id event) e of None \<Rightarrow> False | Some v \<Rightarrow> truthy v) \<and>
    router_handlers rt (ev_type event) = Some h \<and> handle h event e = (Inl x, eh)"
  show "\<exists>y e2. process_webhook l' rt payload' signature' now' e = (Inl y, e2, [class_name h]) \<and>
         (\<not> unwritable eh (''failed:'' @ ev_id event) \<longrightarrow>
            y = x \<and>
            kv e2 = (kv eh)(''failed:'' @ ev_id event \<mapsto>
              JObj [(''event_id'', JStr (ev_id event)), (''event_type'', JStr (ev_type event)),
                    (''error'', JStr x), (''failed_at'', JInt now')]))"
  proof (cases "unwritable eh (''failed:'' @ ev_id event)")
    case True
    with b record_failure_raises [of event now' x eh] show ?thesis
      by (auto simp: process_webhook_def Let_def)
  next
    case False
    with b record_failure_written [OF False, of now' x] show ?thesis
      by (auto simp: process_webhook_def Let_def)
  qed
qed

theorem C4_failure_reporting_witness:
  "(\<exists>res. fst flaky_run = Inr res \<and> res = PartialFailure ''evt_1'' [''flaky: busy'']) \<and>
   (\<exists>e2. process_webhook router_lib broken_router ''evt_1'' ''whsec'' 7 demo_env =
       (Inl ''boom'', e2, [''InvoiceEventHandler'']))"
proof -
  have p: "verify_signature demo_lib (on ''invoice.paid'' (flaky 2) demo_processor) ''evt_1'' ''whsec'' \<and>
    loads demo_lib ''evt_1'' = Envelope ''evt_1'' ''invoice.paid'' JNull 0 \<and>
    process demo_lib ''evt_1'' ''whsec'' 5 (on ''invoice.paid'' (flaky 2) demo_processor) =
      (fst flaky_run, snd flaky_run)"
    by (simp add: demo_fields flaky_run_pair)
  have tr: "error_lines (trace (snd flaky_run)) =
      error_lines (trace (on ''invoice.paid'' (flaky 2) demo_processor)) @ [''flaky: busy'']"
    by code_simp
  have r: "construct_event router_lib ''evt_1'' ''whsec'' (router_secret broken_router) =
      Constructed \<lparr>ev_id = ''evt_1'', ev_type = ''invoice.paid'', ev_object = ()\<rparr> \<and>
    \<not> (case storage_get (''event:'' @ ev_id \<lparr>ev_id = ''evt_1'', ev_type = ''invoice.paid'', ev_object = ()\<rparr>)
           demo_env of None \<Rightarrow> False | Some v \<Rightarrow> truthy v) \<and>
    router_handlers broken_router (ev_type \<lparr>ev_id = ''evt_1'', ev_type = ''invoice.paid'', ev_object = ()\<rparr>) =
      Some raising_handler \<and>
    handle raising_handler \<lparr>ev_id = ''evt_1'', ev_type = ''invoice.paid'', ev_object = ()\<rparr> demo_env =
      (Inl ''boom'', demo_env)"
    by (simp add: router_lib_def broken_router_def register_handler_def new_router_def
          raising_handler_def storage_get_def demo_env_def)
  have w: "\<not> unwritable demo_env (''failed:'' @ ev_id \<lparr>ev_id = ''evt_1'', ev_type = ''invoice.paid'', ev_object = ()\<rparr>)"
    by (simp add: demo_env_def)
  from C4_failure_reporting [where l = demo_lib and payload = "''evt_1''" and signature = "''whsec''"
      and s = "on ''invoice.paid'' (flaky 2) demo_processor" and now = 5
      and out = "fst flaky_run" and s' = "snd flaky_run"
      and i = "''evt_1''" and t = "''invoice.paid''" and d = JNull and c = 0
      and l' = router_lib and payload' = "''evt_1''" and signature' = "''whsec''"
      and rt = broken_router and now' = 7 and e = demo_env and eh = demo_env and x = "''boom''"
      and h = raising_handler
      and event = "\<lparr>ev_id = ''evt_1'', ev_type = ''invoice.paid'', ev_object = ()\<rparr>"]
    p tr r w
  show ?thesis
    by (auto simp: raising_handler_def)
qed

text \<open>
  C5, as stated, fails for \<^verbatim>\<open>WebhookProcessor.process\<close>: \<^verbatim>\<open>verify_signature\<close> turns both
  exceptions of the library into False, and a bad signature and a malformed body are both
  answered with HTTP 400 and the detail \<open>Invalid signature\<close>; there is no 401.
\<close>

theorem C5_counterexample:
  "construct_event demo_lib ''evt_1'' ''forged'' (webhook_secret demo_processor) =
     SignatureVerificationError \<and>
   fst (process demo_lib ''evt_1'' ''forged'' 5 demo_processor) =
     Inl (HTTPException 400 ''Invalid signature'') \<and>
   construct_event demo_lib ''{'' ''whsec'' (webhook_secret demo_processor) = ValueError \<and>
   fst (process demo_lib ''{'' ''whsec'' 5 demo_processor) =
     Inl (HTTPException 400 ''Invalid signature'')"
  by code_simp

text \<open>
  C5, amended. \<^verbatim>\<open>EventRouter.process_webhook\<close> answers a malformed payload with the
  error \<open>Invalid payload\<close> and status 400 and a bad signature with \<open>Invalid signature\<close> and
  status 401, calls no handler and leaves the storage as it was.
  \<^verbatim>\<open>WebhookProcessor.process\<close> raises the same HTTP 400 \<open>Invalid signature\<close> for both, and
  leaves the processor as it was.
\<close>

theorem C5_verification_failure:
  "(construct_event l payload signature (router_secret rt) = ValueError \<longrightarrow>
      process_webhook l rt payload signature now e =
        (Inr (ErrorResponse ''Invalid payload'' 400), e, [])) \<and>
   (construct_event l payload signature (router_secret rt) = SignatureVerificationError \<longrightarrow>
      process_webhook l rt payload signature now e =
        (Inr (ErrorResponse ''Invalid signature'' 401), e, [])) \<and>
   (construct_event l' payload signature (webhook_secret s) = ValueError \<or>
    construct_event l' payload signature (webhook_secret s) = SignatureVerificationError \<longrightarrow>
      process l' payload signature t s = (Inl (HTTPException 400 ''Invalid signature''), s))"
  by (auto simp: process_webhook_def process_def verify_signature_def)

theorem C5_verification_failure_witness:
  "process_webhook router_lib broken_router ''{'' ''whsec'' 7 demo_env =
     (Inr (ErrorResponse ''Invalid payload'' 400), demo_env, []) \<and>
   process_webhook router_lib broken_router ''evt_1'' ''forged'' 7 demo_env =
     (Inr (ErrorResponse ''Invalid signature'' 401), demo_env, []) \<and>
   process demo_lib ''evt_1'' ''forged'' 5 demo_processor =
     (Inl (HTTPException 400 ''Invalid signature''), demo_processor)"
proof -
  have "construct_event router_lib ''{'' ''whsec'' (router_secret broken_router) = ValueError"
    "construct_event router_lib ''evt_1'' ''forged'' (router_secret broken_router) =
       SignatureVerificationError"
    "construct_event demo_lib ''evt_1'' ''forged'' (webhook_secret demo_processor) =
       SignatureVerificationError"
    by code_simp+
  with C5_verification_failure [of router_lib "''{''" "''whsec''" broken_router 7 demo_env
      demo_lib demo_processor 5]
    C5_verification_failure [of router_lib "''evt_1''" "''forged''" broken_router 7 demo_env
      demo_lib demo_processor 5]
  show ?thesis
    by simp
qed




text \<open>
  C7. The code does not do what the claim says when two handlers of the event's type
  exhaust their retries: \<^verbatim>\<open>_process_event\<close> appends the event to \<^verbatim>\<open>failed_events\<close> once for
  each of them, \<^verbatim>\<open>retry_failed\<close> pops the first entry and stops, and after a retry in
  which both handlers return (status \<open>processed\<close>, no retries exhausted) the event is still
  in the dead-letter list.
\<close>

theorem C7_dead_letter_after_successful_retry:
  "failed_ids (snd twice_failed_run) = [''evt_1'', ''evt_1''] \<and>
   fst (retry_failed ''evt_1'' 9 (snd twice_failed_run)) = Processed ''evt_1'' \<and>
   exhaustions 3 (trace (snd (retry_failed ''evt_1'' 9 (snd twice_failed_run)))) =
     exhaustions 3 (trace (snd twice_failed_run)) \<and>
   failed_ids (snd (retry_failed ''evt_1'' 9 (snd twice_failed_run))) = [''evt_1'']"
  by code_simp

text \<open>
  C8. For a \<open>charge.dispute.created\<close> event the handler writes the dispute record first and
  calls the admin alert afterwards: when the storage accepts the write, the record is in
  the storage whether there is no notification service, the alert is sent or the alert
  raises, and in the order of effects the write comes before the call of the sender.
\<close>

theorem C8_dispute_persisted_before_alert:
  assumes "ev_type event = ''charge.dispute.created''"
    and "\<not> unwritable e (''dispute:'' @ dispute_id (ev_object event))"
    and "dispute_handle h event e = (res, e')"
  shows "kv e' (''dispute:'' @ dispute_id (ev_object event)) =
      Some (dispute_record h (ev_object event)) \<and>
    effects e' = effects e @ Put (''dispute:'' @ dispute_id (ev_object event)) #
      (if notifications h then [Send ''admin@example.com''] else []) \<and>
    (notifications h \<and> mail_down e \<longrightarrow> res = Inl ''email: cannot send'' \<and> outbox e' = outbox e) \<and>
    (\<not> (notifications h \<and> mail_down e) \<longrightarrow>
       res = Inr (JObj [(''handled'', JBool True), (''action'', JStr ''dispute_alert_sent'')]))"
  using assms
  by (auto simp: dispute_handle_def handle_created_def storage_put_def send_admin_alert_def
        email_send_def Let_def split: if_splits)

theorem C8_dispute_persisted_before_alert_witness:
  "kv (snd (dispute_handle demo_dispute_handler
         \<lparr>ev_id = ''evt_9'', ev_type = ''charge.dispute.created'', ev_object = demo_dispute\<rparr>
         mail_down_env)) ''dispute:dp_1'' =
     Some (dispute_record demo_dispute_handler demo_dispute) \<and>
   effects (snd (dispute_handle demo_dispute_handler
         \<lparr>ev_id = ''evt_9'', ev_type = ''charge.dispute.created'', ev_object = demo_dispute\<rparr>
         mail_down_env)) = [Put ''dispute:dp_1'', Send ''admin@example.com''] \<and>
   fst (dispute_handle demo_dispute_handler
         \<lparr>ev_id = ''evt_9'', ev_type = ''charge.dispute.created'', ev_object = demo_dispute\<rparr>
         mail_down_env) = Inl ''email: cannot send''"
proof -
  let ?ev = "\<lparr>ev_id = ''evt_9'', ev_type = ''charge.dispute.created'', ev_object = demo_dispute\<rparr>"
  have "ev_type ?ev = ''charge.dispute.created''"
    by simp
  moreover have "\<not> unwritable mail_down_env (''dispute:'' @ dispute_id (ev_object ?ev))"
    by (simp add: mail_down_env_def demo_env_def)
  moreover have "dispute_handle demo_dispute_handler ?ev mail_down_env =
      (fst (dispute_handle demo_dispute_handler ?ev mail_down_env),
       snd (dispute_handle demo_dispute_handler ?ev mail_down_env))"
    by simp
  ultimately show ?thesis
    using C8_dispute_persisted_before_alert
      [of ?ev mail_down_env demo_dispute_handler
        "fst (dispute_handle demo_dispute_handler ?ev mail_down_env)"
        "snd (dispute_handle demo_dispute_handler ?ev mail_down_env)"]
    by (simp add: demo_dispute_def demo_dispute_handler_def mail_down_env_def demo_env_def)
qed



text \<open>
  C10. For an event id that is not in the dead-letter list, \<^verbatim>\<open>retry_failed\<close> returns
  the status \<open>not_found\<close> and changes nothing: the dead-letter list, the event log, the
  event objects and the world the handlers act on are as before, and no handler is called.
\<close>

theorem C10_retry_unknown_id:
  assumes "event_id \<notin> set (failed_ids s)"
  shows "retry_failed event_id now s = (NotFound, s) \<and> status NotFound = ''not_found''"
proof -
  from assms have "find_failed s event_id (failed_events s) 0 = None"
    by (simp only: find_failed_None failed_ids_def not_False_eq_True)
  then show ?thesis
    by (simp add: retry_failed_def)
qed

theorem C10_retry_unknown_id_witness:
  "failed_ids (snd failing_run) = [''evt_1''] \<and>
   ''evt_2'' \<notin> set (failed_ids (snd failing_run)) \<and>
   retry_failed ''evt_2'' 9 (snd failing_run) = (NotFound, snd failing_run)"
proof -
  have ids: "failed_ids (snd failing_run) = [''evt_1'']"
    by code_simp
  then have "''evt_2'' \<notin> set (failed_ids (snd failing_run))"
    by simp
  from C10_retry_unknown_id [OF this, of 9] this ids show ?thesis
    by simp
qed

end
